theory Spec2Isabelle
  imports Main "HOL-Library.Signed_Division"
begin

section \<open>Memory and matrix descriptors\<close>

text \<open>
  The element type \<open>float\<close> of the source is kept abstract: it is any type with a
  zero, an addition and a multiplication, and no law about them is assumed (addition
  need not be associative). Every equation proved below therefore holds for IEEE
  single precision with the operations of the accelerator.

  A value of the type \<open>int\<close> of the source is an integer of 32 bits. The source
  leaves signed overflow undefined; the accelerator and the host wrap around, and so
  does the model: \<open>int32\<close> is written around every product and sum of two \<open>int\<close>
  that may leave the range. A counter \<open>e\<close> of a loop stays below its bound, itself
  an \<open>int\<close>, so that \<open>e + 1\<close> is in the range. The components of \<open>blockIdx\<close>,
  \<open>blockDim\<close> and \<open>threadIdx\<close> are \<open>unsigned int\<close>; \<open>int_of_unsigned\<close> is the value
  of such an expression, computed modulo \<open>2 ^ 32\<close>, after its conversion to \<open>int\<close>.
\<close>

definition BLOCK_SIZE :: int where
  "BLOCK_SIZE = 16"

definition INT_MAX :: int where
  "INT_MAX = 2147483647"

definition int32 :: "int \<Rightarrow> int" where
  "int32 i = (i + 2 ^ 31) mod 2 ^ 32 - 2 ^ 31"

definition int_of_unsigned :: "nat \<Rightarrow> int" where
  "int_of_unsigned n = int32 (int (n mod 2 ^ 32))"

text \<open>
  A pointer names an allocation and an element offset into it, so that pointer
  arithmetic (\<open>&A.elements[k]\<close>) keeps the allocation and moves the offset.
\<close>

datatype ptr = Ptr (base: nat) (offs: int)

type_synonym 'a memory = "nat \<rightharpoonup> 'a list"

text \<open>
  \<open>p[i]\<close> as a read and as a write. An access outside the allocation is undefined in
  the source; in the model it is the fault \<open>None\<close>.
\<close>

definition load :: "'a memory \<Rightarrow> ptr \<Rightarrow> int \<Rightarrow> 'a option" where
  "load M p i =
     (case M (base p) of
        None \<Rightarrow> None
      | Some buf \<Rightarrow>
          if 0 \<le> offs p + i \<and> offs p + i < int (length buf)
          then Some (buf ! nat (offs p + i)) else None)"

definition store :: "'a memory \<Rightarrow> ptr \<Rightarrow> int \<Rightarrow> 'a \<Rightarrow> 'a memory option" where
  "store M p i v =
     (case M (base p) of
        None \<Rightarrow> None
      | Some buf \<Rightarrow>
          if 0 \<le> offs p + i \<and> offs p + i < int (length buf)
          then Some (M(base p \<mapsto> buf[nat (offs p + i) := v])) else None)"

record Matrix =
  width :: int
  height :: int
  stride :: int
  elements :: ptr

text \<open>
  The layout rule of the spec: the element \<open>(r, c)\<close> of a view is the cell
  \<open>r * stride + c\<close> of its data. The source keeps accessors of this form as comments
  (lines 86 to 94) and the tiled kernel inlines them; the index is here the integer
  \<open>r * stride + c\<close> itself, against which the indices that the kernels compute in the
  type \<open>int\<close> are compared.
\<close>

definition GetElement :: "'a memory \<Rightarrow> Matrix \<Rightarrow> int \<Rightarrow> int \<Rightarrow> 'a option" where
  "GetElement M A row col = load M (elements A) (row * stride A + col)"

definition SetElement :: "'a memory \<Rightarrow> Matrix \<Rightarrow> int \<Rightarrow> int \<Rightarrow> 'a \<Rightarrow> 'a memory option" where
  "SetElement M A row col v = store M (elements A) (row * stride A + col) v"

definition GetSubMatrix :: "Matrix \<Rightarrow> int \<Rightarrow> int \<Rightarrow> Matrix" where
  "GetSubMatrix A row col =
     \<lparr> width = BLOCK_SIZE,
       height = BLOCK_SIZE,
       stride = stride A,
       elements = Ptr (base (elements A))
                      (offs (elements A) +
                       int32 (int32 (int32 (stride A * BLOCK_SIZE) * row) +
                              int32 (BLOCK_SIZE * col))) \<rparr>"

section \<open>Execution of a grid\<close>

text \<open>
  \<open>dim3\<close> keeps the components \<open>(x, y)\<close>; the source leaves \<open>z\<close> at one. The workers
  of a block, and the blocks of a grid, are enumerated row by row. A fault of any
  worker ends the run.
\<close>

type_synonym dim3 = "nat \<times> nat"

definition indices :: "dim3 \<Rightarrow> dim3 list" where
  "indices d = map (\<lambda>(y, x). (x, y)) (List.product [0..<snd d] [0..<fst d])"

fun for_each :: "('t \<Rightarrow> 's \<Rightarrow> 's option) \<Rightarrow> 't list \<Rightarrow> 's \<Rightarrow> 's option" where
  "for_each f [] s = Some s"
| "for_each f (t # ts) s = (case f t s of None \<Rightarrow> None | Some s' \<Rightarrow> for_each f ts s')"

section \<open>The direct kernel\<close>

function general_loop ::
  "('a::{zero,plus,times}) memory \<Rightarrow> Matrix \<Rightarrow> Matrix \<Rightarrow> int \<Rightarrow> int \<Rightarrow> int \<Rightarrow> 'a \<Rightarrow> 'a option"
where
  "general_loop M A B row col e Cvalue =
     (if e < width A then
        (case load M (elements A) (int32 (int32 (row * width A) + e)) of
           None \<Rightarrow> None
         | Some a \<Rightarrow>
             (case load M (elements B) (int32 (int32 (e * width B) + col)) of
                None \<Rightarrow> None
              | Some b \<Rightarrow> general_loop M A B row col (e + 1) (Cvalue + a * b)))
      else Some Cvalue)"
  by pat_completeness auto
termination
  by (relation "measure (\<lambda>(M, A, B, row, col, e, Cvalue). nat (width A - e))") auto

declare general_loop.simps [simp del]

text \<open>One worker of \<open>MatMulKernelGeneral\<close>.\<close>

definition MatMulKernelGeneral ::
  "Matrix \<Rightarrow> Matrix \<Rightarrow> Matrix \<Rightarrow> dim3 \<Rightarrow> dim3 \<Rightarrow> dim3 \<Rightarrow>
   ('a::{zero,plus,times}) memory \<Rightarrow> 'a memory option"
where
  "MatMulKernelGeneral A B C blockIdx blockDim threadIdx M =
     (let row = int_of_unsigned (snd blockIdx * snd blockDim + snd threadIdx);
          col = int_of_unsigned (fst blockIdx * fst blockDim + fst threadIdx)
      in case general_loop M A B row col 0 0 of
           None \<Rightarrow> None
         | Some Cvalue \<Rightarrow>
             store M (elements C) (int32 (int32 (row * width C) + col)) Cvalue)"

text \<open>A block of the direct kernel: its workers share nothing and never wait.\<close>

definition general_block ::
  "Matrix \<Rightarrow> Matrix \<Rightarrow> Matrix \<Rightarrow> dim3 \<Rightarrow> dim3 \<Rightarrow>
   ('a::{zero,plus,times}) memory \<Rightarrow> 'a memory option"
where
  "general_block A B C blockDim blockIdx M =
     for_each (MatMulKernelGeneral A B C blockIdx blockDim) (indices blockDim) M"

section \<open>The tiled kernel\<close>

text \<open>
  The workers of a block run in phases separated by \<open>__syncthreads()\<close>. The state of a
  block holds the two shared arrays and, for each worker, its private \<open>Cvalue\<close>. A cell
  of a shared array that no worker has written yet has no value, and reading it is a
  fault.
\<close>

record 'a block_state =
  As :: "int \<times> int \<rightharpoonup> 'a"
  Bs :: "int \<times> int \<rightharpoonup> 'a"
  Cvalue :: "dim3 \<Rightarrow> 'a"

text \<open>Lines 135 and 136: a worker copies one element of each tile.\<close>

definition load_tiles ::
  "'a memory \<Rightarrow> Matrix \<Rightarrow> Matrix \<Rightarrow> dim3 \<Rightarrow> 'a block_state \<Rightarrow> 'a block_state option"
where
  "load_tiles M Asub Bsub threadIdx s =
     (let row = int_of_unsigned (snd threadIdx); col = int_of_unsigned (fst threadIdx) in
      if 0 \<le> row \<and> row < BLOCK_SIZE \<and> 0 \<le> col \<and> col < BLOCK_SIZE then
        (case load M (elements Asub) (int32 (int32 (row * stride Asub) + col)) of
           None \<Rightarrow> None
         | Some a \<Rightarrow>
             (case load M (elements Bsub) (int32 (int32 (row * stride Bsub) + col)) of
                None \<Rightarrow> None
              | Some b \<Rightarrow> Some (s\<lparr> As := (As s)((row, col) \<mapsto> a),
                                   Bs := (Bs s)((row, col) \<mapsto> b) \<rparr>)))
      else None)"

text \<open>Lines 141 and 142: the product of one row and one column of the tiles.\<close>

function tile_loop ::
  "(int \<times> int \<rightharpoonup> ('a::{zero,plus,times})) \<Rightarrow> (int \<times> int \<rightharpoonup> 'a) \<Rightarrow>
   int \<Rightarrow> int \<Rightarrow> int \<Rightarrow> 'a \<Rightarrow> 'a option"
where
  "tile_loop as bs row col e acc =
     (if e < BLOCK_SIZE then
        (case as (row, e) of
           None \<Rightarrow> None
         | Some a \<Rightarrow>
             (case bs (e, col) of
                None \<Rightarrow> None
              | Some b \<Rightarrow> tile_loop as bs row col (e + 1) (acc + a * b)))
      else Some acc)"
  by pat_completeness auto
termination
  by (relation "measure (\<lambda>(as, bs, row, col, e, acc). nat (BLOCK_SIZE - e))") auto

declare tile_loop.simps [simp del]

definition multiply_tiles ::
  "dim3 \<Rightarrow> ('a::{zero,plus,times}) block_state \<Rightarrow> 'a block_state option"
where
  "multiply_tiles threadIdx s =
     (let row = int_of_unsigned (snd threadIdx); col = int_of_unsigned (fst threadIdx) in
      case tile_loop (As s) (Bs s) row col 0 (Cvalue s threadIdx) of
        None \<Rightarrow> None
      | Some v \<Rightarrow> Some (s\<lparr> Cvalue := (Cvalue s)(threadIdx := v) \<rparr>))"

text \<open>One iteration of the loop of line 125, for the whole block.\<close>

definition partitioned_body ::
  "('a::{zero,plus,times}) memory \<Rightarrow> Matrix \<Rightarrow> Matrix \<Rightarrow> int \<Rightarrow> int \<Rightarrow> dim3 list \<Rightarrow>
   int \<Rightarrow> 'a block_state \<Rightarrow> 'a block_state option"
where
  "partitioned_body M A B blockRow blockCol ts m s =
     (let Asub = GetSubMatrix A blockRow m;
          Bsub = GetSubMatrix B m blockCol
      in case for_each (load_tiles M Asub Bsub) ts s of
           None \<Rightarrow> None
         | Some s' \<Rightarrow> for_each multiply_tiles ts s')"

function partitioned_loop ::
  "('a::{zero,plus,times}) memory \<Rightarrow> Matrix \<Rightarrow> Matrix \<Rightarrow> int \<Rightarrow> int \<Rightarrow> dim3 list \<Rightarrow>
   int \<Rightarrow> 'a block_state \<Rightarrow> 'a block_state option"
where
  "partitioned_loop M A B blockRow blockCol ts m s =
     (if m < width A sdiv BLOCK_SIZE then
        (case partitioned_body M A B blockRow blockCol ts m s of
           None \<Rightarrow> None
         | Some s' \<Rightarrow> partitioned_loop M A B blockRow blockCol ts (m + 1) s')
      else Some s)"
  by pat_completeness auto
termination
  by (relation "measure (\<lambda>(M, A, B, blockRow, blockCol, ts, m, s).
                  nat (width A sdiv BLOCK_SIZE - m))") auto

declare partitioned_loop.simps [simp del]

text \<open>Line 150: a worker writes its element of \<open>Csub\<close>.\<close>

definition write_Csub ::
  "Matrix \<Rightarrow> 'a block_state \<Rightarrow> dim3 \<Rightarrow> 'a memory \<Rightarrow> 'a memory option"
where
  "write_Csub Csub s threadIdx M =
     (let row = int_of_unsigned (snd threadIdx); col = int_of_unsigned (fst threadIdx) in
      store M (elements Csub) (int32 (int32 (row * stride Csub) + col)) (Cvalue s threadIdx))"

text \<open>One block of \<open>MatMulKernelPartitioned\<close>.\<close>

definition MatMulKernelPartitioned ::
  "Matrix \<Rightarrow> Matrix \<Rightarrow> Matrix \<Rightarrow> dim3 \<Rightarrow> dim3 \<Rightarrow>
   ('a::{zero,plus,times}) memory \<Rightarrow> 'a memory option"
where
  "MatMulKernelPartitioned A B C blockDim blockIdx M =
     (let blockRow = int_of_unsigned (snd blockIdx);
          blockCol = int_of_unsigned (fst blockIdx);
          Csub = GetSubMatrix C blockRow blockCol;
          s0 = \<lparr> As = Map.empty, Bs = Map.empty, Cvalue = (\<lambda>t. 0) \<rparr>
      in case partitioned_loop M A B blockRow blockCol (indices blockDim) 0 s0 of
           None \<Rightarrow> None
         | Some s \<Rightarrow> for_each (write_Csub Csub s) (indices blockDim) M)"

text \<open>A kernel launched on a grid: the blocks run one after the other.\<close>

definition run_grid ::
  "(dim3 \<Rightarrow> dim3 \<Rightarrow> 's \<Rightarrow> 's option) \<Rightarrow> dim3 \<Rightarrow> dim3 \<Rightarrow> 's \<Rightarrow> 's option"
where
  "run_grid k dimGrid dimBlock M = for_each (k dimBlock) (indices dimGrid) M"

section \<open>The accelerator runtime\<close>

text \<open>
  Modelled from the spec: the accelerator memory service (\<open>allocate\<close>,
  \<open>copyHostToDevice\<close>, \<open>copyDeviceToHost\<close>, \<open>free\<close>) and the kernel launch service of
  its section 6, which the repository calls as \<open>cudaMalloc\<close>, \<open>cudaMemcpy\<close>,
  \<open>cudaFree\<close> and \<open>kernel<<<grid, block>>>(...)\<close> and does not define.

  The machine holds the host memory, the accelerator memory with the number of bytes
  still free, what a cell of accelerator memory that was never written holds, and the
  record of the allocations, releases and launch requests made so far. Every call
  returns its error code together with the new machine.
\<close>

datatype cudaError =
  cudaSuccess
| cudaErrorMemoryAllocation
| cudaErrorInvalidValue
| cudaErrorInvalidConfiguration
| cudaErrorIllegalAddress

datatype cudaMemcpyKind = cudaMemcpyHostToDevice | cudaMemcpyDeviceToHost

datatype kernel_id = KernelGeneral | KernelPartitioned

datatype event = Allocated nat | Released nat | Launch kernel_id

record 'a machine =
  host :: "'a memory"
  device :: "'a memory"
  next_handle :: nat
  available :: nat
  residue :: "nat \<Rightarrow> 'a"
  trace :: "event list"

definition sizeof_float :: nat where
  "sizeof_float = 4"

text \<open>The conversions of an \<open>int\<close> to \<open>size_t\<close> (64 bits) and to \<open>unsigned int\<close>.\<close>

definition size_t_of :: "int \<Rightarrow> nat" where
  "size_t_of i = nat (i mod 2 ^ 64)"

definition unsigned_of :: "int \<Rightarrow> nat" where
  "unsigned_of i = nat (i mod 2 ^ 32)"

text \<open>
  \<open>w * h * sizeof(float)\<close>: the product \<open>w * h\<close> of two \<open>int\<close> is an \<open>int\<close>, which
  is converted to \<open>size_t\<close> and multiplied by the size of an element.
\<close>

definition byte_size :: "int \<Rightarrow> int \<Rightarrow> nat" where
  "byte_size w h = (size_t_of (int32 (w * h)) * sizeof_float) mod 2 ^ 64"

text \<open>
  \<open>cudaMalloc(&p, count)\<close>: the second component of the result is the value of \<open>p\<close>
  after the call, which a failed call leaves as it was.
\<close>

definition cudaMalloc :: "ptr \<Rightarrow> nat \<Rightarrow> 'a machine \<Rightarrow> cudaError \<times> ptr \<times> 'a machine" where
  "cudaMalloc p count m =
     (if count \<le> available m then
        (cudaSuccess, Ptr (next_handle m) 0,
         m\<lparr> device := (device m)(next_handle m \<mapsto>
                          map (residue m) [0..<count div sizeof_float]),
            next_handle := Suc (next_handle m),
            available := available m - count,
            trace := trace m @ [Allocated (next_handle m)] \<rparr>)
      else (cudaErrorMemoryAllocation, p, m))"

definition cudaFree :: "ptr \<Rightarrow> 'a machine \<Rightarrow> cudaError \<times> 'a machine" where
  "cudaFree p m =
     (case device m (base p) of
        None \<Rightarrow> (cudaErrorInvalidValue, m)
      | Some buf \<Rightarrow>
          if offs p = 0 then
            (cudaSuccess,
             m\<lparr> device := (device m)(base p := None),
                available := available m + length buf * sizeof_float,
                trace := trace m @ [Released (base p)] \<rparr>)
          else (cudaErrorInvalidValue, m))"

definition read_cells :: "'a memory \<Rightarrow> ptr \<Rightarrow> nat \<Rightarrow> 'a list option" where
  "read_cells M p n =
     (case M (base p) of
        None \<Rightarrow> None
      | Some buf \<Rightarrow>
          if 0 \<le> offs p \<and> nat (offs p) + n \<le> length buf
          then Some (take n (drop (nat (offs p)) buf)) else None)"

definition write_cells :: "'a memory \<Rightarrow> ptr \<Rightarrow> 'a list \<Rightarrow> 'a memory option" where
  "write_cells M p xs =
     (case M (base p) of
        None \<Rightarrow> None
      | Some buf \<Rightarrow>
          if 0 \<le> offs p \<and> nat (offs p) + length xs \<le> length buf
          then Some (M(base p \<mapsto> take (nat (offs p)) buf @ xs @
                                    drop (nat (offs p) + length xs) buf))
          else None)"

text \<open>
  A copy whose source or destination range leaves its allocation changes nothing and
  reports an error.
\<close>

definition cudaMemcpy ::
  "ptr \<Rightarrow> ptr \<Rightarrow> nat \<Rightarrow> cudaMemcpyKind \<Rightarrow> 'a machine \<Rightarrow> cudaError \<times> 'a machine"
where
  "cudaMemcpy dst src count kind m =
     (case kind of
        cudaMemcpyHostToDevice \<Rightarrow>
          (case read_cells (host m) src (count div sizeof_float) of
             None \<Rightarrow> (cudaErrorInvalidValue, m)
           | Some xs \<Rightarrow>
               (case write_cells (device m) dst xs of
                  None \<Rightarrow> (cudaErrorInvalidValue, m)
                | Some d \<Rightarrow> (cudaSuccess, m\<lparr> device := d \<rparr>)))
      | cudaMemcpyDeviceToHost \<Rightarrow>
          (case read_cells (device m) src (count div sizeof_float) of
             None \<Rightarrow> (cudaErrorInvalidValue, m)
           | Some xs \<Rightarrow>
               (case write_cells (host m) dst xs of
                  None \<Rightarrow> (cudaErrorInvalidValue, m)
                | Some h \<Rightarrow> (cudaSuccess, m\<lparr> host := h \<rparr>))))"

definition kernel_code ::
  "kernel_id \<Rightarrow> Matrix \<Rightarrow> Matrix \<Rightarrow> Matrix \<Rightarrow> dim3 \<Rightarrow> dim3 \<Rightarrow>
   ('a::{zero,plus,times}) memory \<Rightarrow> 'a memory option"
where
  "kernel_code k =
     (case k of KernelGeneral \<Rightarrow> general_block | KernelPartitioned \<Rightarrow> MatMulKernelPartitioned)"

text \<open>
  \<open>kernel<<<dimGrid, dimBlock>>>(A, B, C)\<close>. A grid or a block with no worker cannot
  be scheduled. A run in which a worker faults is reported and leaves the accelerator
  memory as it was.
\<close>

definition cudaLaunch ::
  "kernel_id \<Rightarrow> dim3 \<Rightarrow> dim3 \<Rightarrow> Matrix \<Rightarrow> Matrix \<Rightarrow> Matrix \<Rightarrow>
   ('a::{zero,plus,times}) machine \<Rightarrow> cudaError \<times> 'a machine"
where
  "cudaLaunch k dimGrid dimBlock A B C m =
     (let m' = m\<lparr> trace := trace m @ [Launch k] \<rparr> in
      if fst dimGrid = 0 \<or> snd dimGrid = 0 \<or> fst dimBlock = 0 \<or> snd dimBlock = 0
      then (cudaErrorInvalidConfiguration, m')
      else
        (case run_grid (kernel_code k A B C) dimGrid dimBlock (device m) of
           None \<Rightarrow> (cudaErrorIllegalAddress, m')
         | Some d \<Rightarrow> (cudaSuccess, m'\<lparr> device := d \<rparr>)))"

section \<open>The host code\<close>

text \<open>
  \<open>MatMul\<close> declares \<open>d_A\<close>, \<open>d_B\<close> and \<open>d_C\<close> without initialising them and never
  looks at an error code. The first argument of the model gives the values that the
  three pointers \<open>d_A.elements\<close>, \<open>d_B.elements\<close> and \<open>d_C.elements\<close> hold before
  \<open>cudaMalloc\<close> assigns them.
\<close>

definition MatMul ::
  "ptr \<times> ptr \<times> ptr \<Rightarrow> Matrix \<Rightarrow> Matrix \<Rightarrow> Matrix \<Rightarrow> bool \<Rightarrow>
   ('a::{zero,plus,times}) machine \<Rightarrow> 'a machine"
where
  "MatMul junk A B C general m0 =
     (let size_A = byte_size (width A) (height A);
          (e1, p_A, m1) = cudaMalloc (fst junk) size_A m0;
          d_A = \<lparr> width = width A, height = height A, stride = width A, elements = p_A \<rparr>;
          (e2, m2) = cudaMemcpy (elements d_A) (elements A) size_A cudaMemcpyHostToDevice m1;
          size_B = byte_size (width B) (height B);
          (e3, p_B, m3) = cudaMalloc (fst (snd junk)) size_B m2;
          d_B = \<lparr> width = width B, height = height B, stride = width B, elements = p_B \<rparr>;
          (e4, m4) = cudaMemcpy (elements d_B) (elements B) size_B cudaMemcpyHostToDevice m3;
          size_C = byte_size (width C) (height C);
          (e5, p_C, m5) = cudaMalloc (snd (snd junk)) size_C m4;
          d_C = \<lparr> width = width C, height = height C, stride = width C, elements = p_C \<rparr>;
          dimBlock = (nat BLOCK_SIZE, nat BLOCK_SIZE);
          dimGrid = (unsigned_of (width B) div fst dimBlock,
                     unsigned_of (height A) div snd dimBlock);
          (e6, m6) = (if general
                      then cudaLaunch KernelGeneral dimGrid dimBlock d_A d_B d_C m5
                      else cudaLaunch KernelPartitioned dimGrid dimBlock d_A d_B d_C m5);
          (e7, m7) = cudaMemcpy (elements C) (elements d_C) size_C cudaMemcpyDeviceToHost m6;
          (e8, m8) = cudaFree (elements d_A) m7;
          (e9, m9) = cudaFree (elements d_B) m8;
          (e10, m10) = cudaFree (elements d_C) m9
      in m10)"

section \<open>What the claims speak about\<close>

text \<open>
  The coordinates of a view; a value of the type \<open>int\<close>; and a view all of whose
  elements lie in its buffer, at indices that are values of the type \<open>int\<close>: its
  height and its stride are such values, and so is their product.
\<close>

definition is_int :: "int \<Rightarrow> bool" where
  "is_int i \<longleftrightarrow> - INT_MAX - 1 \<le> i \<and> i \<le> INT_MAX"

definition in_view :: "Matrix \<Rightarrow> int \<Rightarrow> int \<Rightarrow> bool" where
  "in_view A r c \<longleftrightarrow> 0 \<le> r \<and> r < height A \<and> 0 \<le> c \<and> c < width A"

definition valid_view :: "'a memory \<Rightarrow> Matrix \<Rightarrow> bool" where
  "valid_view M A \<longleftrightarrow>
     0 \<le> width A \<and> 0 \<le> height A \<and> width A \<le> stride A \<and> 0 \<le> offs (elements A) \<and>
     height A \<le> INT_MAX \<and> stride A \<le> INT_MAX \<and> height A * stride A \<le> INT_MAX \<and>
     (case M (base (elements A)) of
        None \<Rightarrow> False
      | Some buf \<Rightarrow>
          offs (elements A) + (height A - 1) * stride A + width A \<le> int (length buf)
          \<or> height A = 0)"

text \<open>
  A full matrix of the host: a buffer of its own that holds \<open>width * height\<close>
  elements; the two dimensions and their product are values of the type \<open>int\<close> of the
  source. The host code never reads the stride of its arguments, and nothing is asked
  of it.
\<close>

definition host_matrix :: "'a memory \<Rightarrow> Matrix \<Rightarrow> bool" where
  "host_matrix M A \<longleftrightarrow>
     0 \<le> width A \<and> width A \<le> INT_MAX \<and> 0 \<le> height A \<and> height A \<le> INT_MAX \<and>
     width A * height A \<le> INT_MAX \<and> offs (elements A) = 0 \<and>
     (case M (base (elements A)) of
        None \<Rightarrow> False
      | Some buf \<Rightarrow> int (length buf) = width A * height A)"

text \<open>The invariant on the dimensions of section 3 of the spec.\<close>

definition dimension_invariant :: "Matrix \<Rightarrow> Matrix \<Rightarrow> Matrix \<Rightarrow> bool" where
  "dimension_invariant A B C \<longleftrightarrow>
     BLOCK_SIZE dvd width A \<and> BLOCK_SIZE dvd height A \<and> BLOCK_SIZE dvd width B \<and>
     BLOCK_SIZE dvd width C \<and> BLOCK_SIZE dvd height C \<and>
     width A = height B \<and> height A = height C \<and> width B = width C"

text \<open>
  The sum \<open>\<Sum> e = 0..n-1. A(row, e) * B(e, col)\<close> of the spec, added from left to
  right starting from zero, over the elements that the layout rule gives.
\<close>

definition cell :: "('a::zero) memory \<Rightarrow> Matrix \<Rightarrow> int \<Rightarrow> int \<Rightarrow> 'a" where
  "cell M A r c = (case GetElement M A r c of None \<Rightarrow> 0 | Some v \<Rightarrow> v)"

definition dot_product ::
  "('a::{zero,plus,times}) memory \<Rightarrow> Matrix \<Rightarrow> Matrix \<Rightarrow> int \<Rightarrow> int \<Rightarrow> int \<Rightarrow> 'a"
where
  "dot_product M A B row col n =
     foldl (\<lambda>acc e. acc + cell M A row e * cell M B e col) 0 [0..n - 1]"

text \<open>
  The product of two full matrices as a row-major buffer: the element \<open>i\<close> is the sum
  for the row \<open>i div B.width\<close> and the column \<open>i mod B.width\<close>. The buffers of the
  operands are given as lists.
\<close>

definition product_buffer ::
  "Matrix \<Rightarrow> Matrix \<Rightarrow> ('a::{zero,plus,times}) list \<Rightarrow> 'a list \<Rightarrow> 'a list"
where
  "product_buffer A B bufA bufB =
     map (\<lambda>i. dot_product [0 \<mapsto> bufA, 1 \<mapsto> bufB]
                 \<lparr> width = width A, height = height A, stride = width A, elements = Ptr 0 0 \<rparr>
                 \<lparr> width = width B, height = height B, stride = width B, elements = Ptr 1 0 \<rparr>
                 (int i div width B) (int i mod width B) (width A))
         [0..<nat (width B * height A)]"

text \<open>The kernels that a record of events asks to launch, in order.\<close>

fun launches :: "event list \<Rightarrow> kernel_id list" where
  "launches [] = []"
| "launches (Launch k # es) = k # launches es"
| "launches (Allocated h # es) = launches es"
| "launches (Released h # es) = launches es"

text \<open>
  A machine whose allocator is sound: no handle that it has yet to hand out names a
  live buffer.
\<close>

definition fresh_handles :: "'a machine \<Rightarrow> bool" where
  "fresh_handles m \<longleftrightarrow> (\<forall>h. next_handle m \<le> h \<longrightarrow> device m h = None)"

text \<open>
  The accelerator memory during a call, against the memory \<open>m\<close> before it: the
  buffers that were live keep their contents, the other live buffers are the handles
  of \<open>L\<close>, and the allocator stays sound.
\<close>

definition transient :: "'a machine \<Rightarrow> 'a machine \<Rightarrow> nat set \<Rightarrow> bool" where
  "transient m m' L \<longleftrightarrow>
     (\<forall>h. h \<in> dom (device m) \<longrightarrow> device m' h = device m h) \<and>
     dom (device m') = dom (device m) \<union> L \<and>
     L \<inter> dom (device m) = {} \<and>
     (\<forall>h. next_handle m' \<le> h \<longrightarrow> device m' h = None)"

text \<open>
  The handles that a record of events allocates and those that it releases, in order.
  In a record that is \<open>paired\<close>, every buffer that is allocated is released exactly
  once, and no other buffer is released.
\<close>

fun allocated :: "event list \<Rightarrow> nat list" where
  "allocated [] = []"
| "allocated (Allocated h # es) = h # allocated es"
| "allocated (Released h # es) = allocated es"
| "allocated (Launch k # es) = allocated es"

fun released :: "event list \<Rightarrow> nat list" where
  "released [] = []"
| "released (Released h # es) = h # released es"
| "released (Allocated h # es) = released es"
| "released (Launch k # es) = released es"

definition paired :: "event list \<Rightarrow> bool" where
  "paired es \<longleftrightarrow>
     distinct (allocated es) \<and> distinct (released es) \<and> set (released es) = set (allocated es)"

text \<open>
  The accounts of a call in progress, against the machine \<open>m\<close> before it: the free
  bytes and the bytes of the buffers \<open>L\<close> that the call holds add up to the free bytes
  before the call, and \<open>L\<close> holds the buffers that the call has allocated and not yet
  released, none of them twice.
\<close>

definition ledger :: "'a machine \<Rightarrow> 'a machine \<Rightarrow> nat set \<Rightarrow> bool" where
  "ledger m m' L \<longleftrightarrow>
     finite L \<and>
     available m' + (\<Sum>h\<in>L. length (the (device m' h)) * sizeof_float) = available m \<and>
     (\<exists>es. trace m' = trace m @ es \<and> distinct (allocated es) \<and> distinct (released es) \<and>
           set (released es) \<subseteq> set (allocated es) \<and>
           L = set (allocated es) - set (released es) \<and>
           (\<forall>h \<in> set (allocated es). h < next_handle m'))"

text \<open>
  The free bytes after a request for \<open>n\<close> bytes, granted or not. A call of \<open>MatMul\<close>
  leaves unassigned the pointers whose allocation fails, the allocations being asked
  for in the order \<open>A\<close>, \<open>B\<close>, \<open>C\<close>; in \<open>unassigned_dead\<close> none of the pointers
  that the call leaves unassigned names a live buffer of the accelerator.
\<close>

definition after_alloc :: "nat \<Rightarrow> nat \<Rightarrow> nat" where
  "after_alloc av n = (if n \<le> av then av - n else av)"

definition unassigned_dead ::
  "'a machine \<Rightarrow> ptr \<times> ptr \<times> ptr \<Rightarrow> Matrix \<Rightarrow> Matrix \<Rightarrow> Matrix \<Rightarrow> bool"
where
  "unassigned_dead m junk A B C \<longleftrightarrow>
     (available m < byte_size (width A) (height A) \<longrightarrow>
        device m (base (fst junk)) = None) \<and>
     (after_alloc (available m) (byte_size (width A) (height A)) < byte_size (width B) (height B) \<longrightarrow>
        device m (base (fst (snd junk))) = None) \<and>
     (after_alloc (after_alloc (available m) (byte_size (width A) (height A)))
        (byte_size (width B) (height B)) < byte_size (width C) (height C) \<longrightarrow>
        device m (base (snd (snd junk))) = None)"

text \<open>
  A machine with room for the three buffers of a call, and a sequence of calls, as the
  two of \<open>main\<close>.
\<close>

definition room_for :: "'a machine \<Rightarrow> Matrix \<Rightarrow> Matrix \<Rightarrow> Matrix \<Rightarrow> bool" where
  "room_for m A B C \<longleftrightarrow>
     byte_size (width A) (height A) + byte_size (width B) (height B) +
     byte_size (width C) (height C) \<le> available m"

type_synonym call = "(ptr \<times> ptr \<times> ptr) \<times> Matrix \<times> Matrix \<times> Matrix \<times> bool"

fun MatMul_calls :: "call list \<Rightarrow> ('a::{zero,plus,times}) machine \<Rightarrow> 'a machine" where
  "MatMul_calls [] m = m"
| "MatMul_calls ((junk, A, B, C, general) # cs) m =
     MatMul_calls cs (MatMul junk A B C general m)"

text \<open>The loop of line 125 written as a number of iterations of its body.\<close>

fun iterations ::
  "nat \<Rightarrow> (int \<Rightarrow> 's \<Rightarrow> 's option) \<Rightarrow> int \<Rightarrow> 's \<Rightarrow> 's option"
where
  "iterations 0 body m s = Some s"
| "iterations (Suc n) body m s =
     (case body m s of None \<Rightarrow> None | Some s' \<Rightarrow> iterations n body (m + 1) s')"

text \<open>
  How a run changes the memory: outside the buffer of \<open>C\<close> nothing, the length of
  that buffer stays, and the elements of \<open>C\<close> in the set \<open>S\<close> hold the values
  \<open>f\<close> while the others keep theirs.
\<close>

definition agrees :: "'a memory \<Rightarrow> 'a memory \<Rightarrow> Matrix \<Rightarrow> bool" where
  "agrees M M' C \<longleftrightarrow>
     (\<forall>h. h \<noteq> base (elements C) \<longrightarrow> M' h = M h) \<and>
     map_option length (M' (base (elements C))) = map_option length (M (base (elements C)))"

definition updated ::
  "'a memory \<Rightarrow> 'a memory \<Rightarrow> Matrix \<Rightarrow> (int \<times> int) set \<Rightarrow> (int \<Rightarrow> int \<Rightarrow> 'a) \<Rightarrow> bool"
where
  "updated M M' C S f \<longleftrightarrow>
     agrees M M' C \<and>
     (\<forall>r c. in_view C r c \<longrightarrow>
        GetElement M' C r c = (if (r, c) \<in> S then Some (f r c) else GetElement M C r c))"

text \<open>The coordinates of the sub-matrix of \<open>C\<close> that the block \<open>b\<close> owns.\<close>

definition tile :: "dim3 \<Rightarrow> (int \<times> int) set" where
  "tile b = {(r, c). int (snd b) * 16 \<le> r \<and> r < int (snd b) * 16 + 16 \<and>
                     int (fst b) * 16 \<le> c \<and> c < int (fst b) * 16 + 16}"

section \<open>Lemmas\<close>

subsection \<open>Running the workers of a list\<close>

lemma for_each_invariant_aux:
  "distinct ts \<Longrightarrow> D \<inter> set ts = {} \<Longrightarrow> I D s \<Longrightarrow>
   (\<And>t D' s1. t \<in> set ts \<Longrightarrow> t \<notin> D' \<Longrightarrow> I D' s1 \<Longrightarrow> \<exists>s2. f t s1 = Some s2 \<and> I (insert t D') s2) \<Longrightarrow>
   \<exists>s'. for_each f ts s = Some s' \<and> I (D \<union> set ts) s'"
proof (induction ts arbitrary: D s)
  case Nil
  then show ?case by simp
next
  case (Cons t ts)
  have tD: "t \<notin> D" using Cons.prems(2) by auto
  obtain s2 where s2: "f t s = Some s2" "I (insert t D) s2"
    using Cons.prems(4)[of t D s] tD Cons.prems(3) by auto
  have "\<exists>s'. for_each f ts s2 = Some s' \<and> I (insert t D \<union> set ts) s'"
  proof (rule Cons.IH)
    show "distinct ts" using Cons.prems(1) by simp
    show "insert t D \<inter> set ts = {}" using Cons.prems(1,2) by auto
    show "I (insert t D) s2" by (rule s2)
    show "\<And>u D' s1. u \<in> set ts \<Longrightarrow> u \<notin> D' \<Longrightarrow> I D' s1 \<Longrightarrow> \<exists>s2. f u s1 = Some s2 \<and> I (insert u D') s2"
      using Cons.prems(4) by simp
  qed
  then show ?case using s2 by simp
qed

lemma for_each_invariant:
  assumes "distinct ts" and "I {} s"
    and "\<And>t D s1. t \<in> set ts \<Longrightarrow> t \<notin> D \<Longrightarrow> I D s1 \<Longrightarrow> \<exists>s2. f t s1 = Some s2 \<and> I (insert t D) s2"
  shows "\<exists>s'. for_each f ts s = Some s' \<and> I (set ts) s'"
  using for_each_invariant_aux[of ts "{}" I s f] assms by auto

lemma set_indices: "set (indices d) = {(x, y). x < fst d \<and> y < snd d}"
  by (auto simp: indices_def)

lemma distinct_indices: "distinct (indices d)"
  unfolding indices_def
  by (auto simp: distinct_map distinct_product inj_on_def)

subsection \<open>Arithmetic of the type \<open>int\<close>\<close>

lemma int32_id: "is_int i \<Longrightarrow> int32 i = i"
  by (simp add: int32_def is_int_def INT_MAX_def)

lemma int32_add_left: "int32 (int32 a + b) = int32 (a + b)"
  unfolding int32_def by (simp add: mod_simps algebra_simps)

lemma int32_add_right: "int32 (a + int32 b) = int32 (a + b)"
  unfolding int32_def by (simp add: mod_simps algebra_simps)

lemma int32_mult_left: "int32 (int32 a * b) = int32 (a * b)"
proof -
  have "(((a + 2 ^ 31) mod 2 ^ 32 - 2 ^ 31) * b + 2 ^ 31) mod 2 ^ 32
      = (((a + 2 ^ 31) mod 2 ^ 32) * b + (2 ^ 31 - 2 ^ 31 * b)) mod (2 ^ 32 :: int)"
    by (simp add: algebra_simps)
  also have "\<dots> = ((a + 2 ^ 31) * b + (2 ^ 31 - 2 ^ 31 * b)) mod 2 ^ 32"
    by (metis mod_add_left_eq mod_mult_left_eq)
  also have "\<dots> = (a * b + 2 ^ 31) mod 2 ^ 32"
    by (simp add: algebra_simps)
  finally show ?thesis by (simp add: int32_def)
qed

lemma int32_mult_right: "int32 (a * int32 b) = int32 (a * b)"
  using int32_mult_left[of b a] by (simp add: mult.commute)

lemmas int32_arith = int32_add_left int32_add_right int32_mult_left int32_mult_right

lemma int32_index: "is_int (r * s + c) \<Longrightarrow> int32 (int32 (r * s) + c) = r * s + c"
  by (simp add: int32_arith int32_id)

lemma int32_tile:
  "is_int (s * BLOCK_SIZE * r + BLOCK_SIZE * c) \<Longrightarrow>
   int32 (int32 (int32 (s * BLOCK_SIZE) * r) + int32 (BLOCK_SIZE * c)) =
     s * BLOCK_SIZE * r + BLOCK_SIZE * c"
  by (simp add: int32_arith int32_id)

lemma int_of_unsigned_id: "int n \<le> INT_MAX \<Longrightarrow> int_of_unsigned n = int n"
proof -
  assume "int n \<le> INT_MAX"
  then have "n < 2 ^ 32" "is_int (int n)" by (simp_all add: INT_MAX_def is_int_def)
  then show ?thesis by (simp add: int_of_unsigned_def int32_id)
qed

lemma int_of_unsigned_16: "n < 16 \<Longrightarrow> int_of_unsigned n = int n"
  by (rule int_of_unsigned_id) (simp add: INT_MAX_def)

lemma is_int_between: "0 \<le> i \<Longrightarrow> i \<le> j \<Longrightarrow> j \<le> INT_MAX \<Longrightarrow> is_int i"
  by (simp add: is_int_def INT_MAX_def)

lemma GetSubMatrix_exact:
  "is_int (stride A * BLOCK_SIZE * br + BLOCK_SIZE * bc) \<Longrightarrow>
   GetSubMatrix A br bc =
     \<lparr> width = BLOCK_SIZE, height = BLOCK_SIZE, stride = stride A,
       elements = Ptr (base (elements A))
                      (offs (elements A) + (stride A * BLOCK_SIZE * br + BLOCK_SIZE * bc)) \<rparr>"
  by (simp add: GetSubMatrix_def int32_tile)

text \<open>
  Outside the range the model wraps around as the machine does: the offset of the tile
  \<open>(1, 0)\<close> of a view of stride \<open>2 ^ 27\<close> is \<open>- 2 ^ 31\<close>, and the number of bytes
  of a matrix of \<open>46341 * 46341\<close> elements is \<open>2 ^ 64 - 8589916060\<close>.
\<close>

lemma GetSubMatrix_wraps:
  "GetSubMatrix \<lparr>width = 134217728, height = 32, stride = 134217728, elements = Ptr b 0\<rparr> 1 0 =
     \<lparr>width = 16, height = 16, stride = 134217728, elements = Ptr b (- 2147483648)\<rparr>"
  by (simp add: GetSubMatrix_def BLOCK_SIZE_def int32_def)

lemma byte_size_wraps: "byte_size 46341 46341 = 18446744065119635556"
  by (simp add: byte_size_def size_t_of_def sizeof_float_def int32_def)

lemma int_of_unsigned_wraps:
  "int_of_unsigned 4294967299 = 3" "int_of_unsigned 2147483648 = - 2147483648"
  by (simp_all add: int_of_unsigned_def int32_def)

subsection \<open>Views and their elements\<close>

lemma valid_view_bounds:
  assumes "valid_view M A" "in_view A r c"
  shows "\<exists>buf. M (base (elements A)) = Some buf \<and> 0 \<le> offs (elements A) + (r * stride A + c)
           \<and> offs (elements A) + (r * stride A + c) < int (length buf)"
proof -
  from assms(2) have rc: "0 \<le> r" "r < height A" "0 \<le> c" "c < width A"
    by (simp_all add: in_view_def)
  from assms(1) obtain buf where buf: "M (base (elements A)) = Some buf"
    and len: "offs (elements A) + (height A - 1) * stride A + width A \<le> int (length buf)"
    and s: "0 \<le> stride A" "0 \<le> offs (elements A)"
    using rc by (auto simp: valid_view_def split: option.splits)
  have "r * stride A \<le> (height A - 1) * stride A"
    using rc s by (intro mult_right_mono) auto
  moreover have "0 \<le> r * stride A" using rc s by simp
  ultimately show ?thesis using buf len rc s by auto
qed

lemma valid_view_is_int:
  assumes "valid_view M A" "in_view A r c"
  shows "is_int (r * stride A + c)"
proof -
  from assms(2) have rc: "0 \<le> r" "r < height A" "0 \<le> c" "c < width A"
    by (simp_all add: in_view_def)
  from assms(1) have s: "0 \<le> stride A" "width A \<le> stride A" "height A * stride A \<le> INT_MAX"
    using rc by (auto simp: valid_view_def)
  have "(r + 1) * stride A \<le> height A * stride A"
    using rc s by (intro mult_right_mono) auto
  then have "r * stride A + c \<le> height A * stride A"
    using rc s by (simp add: algebra_simps)
  moreover have "0 \<le> r * stride A" using rc s by simp
  ultimately show ?thesis using rc s by (intro is_int_between[of _ "height A * stride A"]) auto
qed

lemma valid_view_tile:
  assumes v: "valid_view M A"
    and br: "0 \<le> br" "(br + 1) * 16 \<le> height A"
    and bc: "0 \<le> bc" "(bc + 1) * 16 \<le> width A"
  shows "is_int (stride A * BLOCK_SIZE * br + BLOCK_SIZE * bc)"
    and "0 \<le> r \<Longrightarrow> r < 16 \<Longrightarrow> 0 \<le> c \<Longrightarrow> c < 16 \<Longrightarrow> is_int (r * stride A + c)"
proof -
  have "in_view A (br * 16) (bc * 16)" using br bc by (simp add: in_view_def)
  from valid_view_is_int[OF v this]
  show "is_int (stride A * BLOCK_SIZE * br + BLOCK_SIZE * bc)"
    by (simp add: BLOCK_SIZE_def algebra_simps)
  show "is_int (r * stride A + c)" if "0 \<le> r" "r < 16" "0 \<le> c" "c < 16"
  proof -
    have "in_view A r c" using that br bc by (simp add: in_view_def)
    from valid_view_is_int[OF v this] show ?thesis .
  qed
qed

lemma GetElement_valid:
  "valid_view M A \<Longrightarrow> in_view A r c \<Longrightarrow> GetElement M A r c = Some (cell M A r c)"
proof -
  assume "valid_view M A" "in_view A r c"
  from valid_view_bounds[OF this] obtain buf where "M (base (elements A)) = Some buf"
    "0 \<le> offs (elements A) + (r * stride A + c)"
    "offs (elements A) + (r * stride A + c) < int (length buf)" by blast
  then show ?thesis by (simp add: cell_def GetElement_def load_def)
qed

lemma index_inj_aux:
  fixes r r' c c' s :: int
  assumes "0 \<le> c" "c < s" "0 \<le> c'" "r < r'"
  shows "r * s + c < r' * s + c'"
proof -
  have "(r + 1) * s \<le> r' * s" using assms by (intro mult_right_mono) auto
  then show ?thesis using assms by (simp add: algebra_simps)
qed

lemma index_inj:
  fixes r r' c c' s :: int
  assumes "0 \<le> c" "c < s" "0 \<le> c'" "c' < s" "r * s + c = r' * s + c'"
  shows "r = r' \<and> c = c'"
proof -
  have "\<not> r < r'" using index_inj_aux[of c s c' r r'] assms by auto
  moreover have "\<not> r' < r" using index_inj_aux[of c' s c r' r] assms by auto
  ultimately have "r = r'" by simp
  then show ?thesis using assms by simp
qed

lemma GetElement_cong:
  "M' (base (elements A)) = M (base (elements A)) \<Longrightarrow> GetElement M' A r c = GetElement M A r c"
  by (simp add: GetElement_def load_def)

lemma cell_cong:
  "M' (base (elements A)) = M (base (elements A)) \<Longrightarrow> cell M' A r c = cell M A r c"
  using GetElement_cong[of M' A M r c] by (simp add: cell_def)

lemma valid_view_cong:
  "map_option length (M' (base (elements A))) = map_option length (M (base (elements A)))
   \<Longrightarrow> valid_view M' A = valid_view M A"
  by (cases "M' (base (elements A))"; cases "M (base (elements A))") (simp_all add: valid_view_def)

lemma dot_product_cong:
  "M' (base (elements A)) = M (base (elements A)) \<Longrightarrow> M' (base (elements B)) = M (base (elements B))
   \<Longrightarrow> dot_product M' A B r c n = dot_product M A B r c n"
proof -
  assume a: "M' (base (elements A)) = M (base (elements A))" and b: "M' (base (elements B)) = M (base (elements B))"
  have "(\<lambda>acc e. acc + cell M' A r e * cell M' B e c) = (\<lambda>acc e. acc + cell M A r e * cell M B e c)"
    using cell_cong[of M' A M] cell_cong[of M' B M] a b by simp
  then show ?thesis by (simp add: dot_product_def)
qed

lemma SetElement_valid:
  assumes v: "valid_view M C" and rc: "in_view C r0 c0"
  shows "\<exists>buf. M (base (elements C)) = Some buf \<and>
           0 \<le> offs (elements C) + (r0 * stride C + c0) \<and>
           offs (elements C) + (r0 * stride C + c0) < int (length buf) \<and>
           SetElement M C r0 c0 v =
             Some (M(base (elements C) \<mapsto> buf[nat (offs (elements C) + (r0 * stride C + c0)) := v]))"
proof -
  from valid_view_bounds[OF v rc] obtain buf where "M (base (elements C)) = Some buf"
    "0 \<le> offs (elements C) + (r0 * stride C + c0)"
    "offs (elements C) + (r0 * stride C + c0) < int (length buf)" by blast
  then show ?thesis by (simp add: SetElement_def store_def)
qed

lemma GetElement_update:
  assumes v: "valid_view M C" and rc0: "in_view C r0 c0" and rc: "in_view C r c"
    and buf: "M (base (elements C)) = Some buf"
  shows "GetElement (M(base (elements C) \<mapsto> buf[nat (offs (elements C) + (r0 * stride C + c0)) := x])) C r c
         = (if r = r0 \<and> c = c0 then Some x else GetElement M C r c)"
proof -
  from valid_view_bounds[OF v rc0] buf
  have b0: "0 \<le> offs (elements C) + (r0 * stride C + c0)"
           "offs (elements C) + (r0 * stride C + c0) < int (length buf)" by auto
  from valid_view_bounds[OF v rc] buf
  have b: "0 \<le> offs (elements C) + (r * stride C + c)"
          "offs (elements C) + (r * stride C + c) < int (length buf)" by auto
  have ws: "width C \<le> stride C" using v by (simp add: valid_view_def)
  show ?thesis
  proof (cases "r = r0 \<and> c = c0")
    case True
    then show ?thesis using b0 by (simp add: GetElement_def load_def)
  next
    case False
    have "r * stride C + c \<noteq> r0 * stride C + c0"
      using index_inj[of c "stride C" c0 r r0] rc rc0 ws False by (auto simp: in_view_def)
    then have "nat (offs (elements C) + (r * stride C + c)) \<noteq> nat (offs (elements C) + (r0 * stride C + c0))"
      using b b0 by auto
    then have "buf[nat (offs (elements C) + (r0 * stride C + c0)) := x] ! nat (offs (elements C) + (r * stride C + c))
               = buf ! nat (offs (elements C) + (r * stride C + c))"
      by (simp add: nth_list_update_neq)
    then show ?thesis using False b buf by (auto simp: GetElement_def load_def)
  qed
qed

lemma load_Ptr_shift: "load M (Ptr b (k + d)) i = load M (Ptr b k) (d + i)"
  by (simp add: load_def add.assoc split: option.splits)

lemma GetElement_GetSubMatrix:
  assumes "is_int (stride A * BLOCK_SIZE * br + BLOCK_SIZE * bc)"
  shows "GetElement M (GetSubMatrix A br bc) r c = GetElement M A (br * BLOCK_SIZE + r) (bc * BLOCK_SIZE + c)"
proof -
  have e: "(stride A * BLOCK_SIZE * br + BLOCK_SIZE * bc) + (r * stride A + c)
        = (br * BLOCK_SIZE + r) * stride A + (bc * BLOCK_SIZE + c)"
    by (simp add: algebra_simps)
  have "GetElement M (GetSubMatrix A br bc) r c
        = load M (Ptr (base (elements A)) (offs (elements A)))
            ((stride A * BLOCK_SIZE * br + BLOCK_SIZE * bc) + (r * stride A + c))"
    by (simp add: GetElement_def GetSubMatrix_exact[OF assms] load_Ptr_shift)
  also have "\<dots> = GetElement M A (br * BLOCK_SIZE + r) (bc * BLOCK_SIZE + c)"
    unfolding e by (simp add: GetElement_def)
  finally show ?thesis .
qed

subsection \<open>The loops as sums\<close>

lemma general_loop_fold:
  "(\<And>e. e0 \<le> e \<Longrightarrow> e < width A \<Longrightarrow>
      load M (elements A) (int32 (int32 (row * width A) + e)) = Some (fa e) \<and>
      load M (elements B) (int32 (int32 (e * width B) + col)) = Some (gb e)) \<Longrightarrow>
   general_loop M A B row col e0 acc =
     Some (foldl (\<lambda>acc e. acc + fa e * gb e) acc [e0..width A - 1])"
proof (induction "nat (width A - e0)" arbitrary: e0 acc)
  case 0
  then have "\<not> e0 < width A" by simp
  then show ?case by (simp add: general_loop.simps)
next
  case (Suc n)
  then have lt: "e0 < width A" by linarith
  have l: "load M (elements A) (int32 (int32 (row * width A) + e0)) = Some (fa e0)"
          "load M (elements B) (int32 (int32 (e0 * width B) + col)) = Some (gb e0)"
    using Suc.prems[of e0] lt by auto
  have "general_loop M A B row col (e0 + 1) (acc + fa e0 * gb e0) =
         Some (foldl (\<lambda>acc e. acc + fa e * gb e) (acc + fa e0 * gb e0) [e0 + 1..width A - 1])"
  proof (rule Suc.hyps(1))
    show "n = nat (width A - (e0 + 1))" using Suc.hyps(2) by linarith
    show "\<And>e. e0 + 1 \<le> e \<Longrightarrow> e < width A \<Longrightarrow>
      load M (elements A) (int32 (int32 (row * width A) + e)) = Some (fa e) \<and>
      load M (elements B) (int32 (int32 (e * width B) + col)) = Some (gb e)"
      using Suc.prems by simp
  qed
  moreover have "[e0..width A - 1] = e0 # [e0 + 1..width A - 1]"
    using lt by (simp add: upto_rec1)
  ultimately show ?case using lt l by (subst general_loop.simps) simp
qed

lemma tile_loop_fold:
  "(\<And>e. e0 \<le> e \<Longrightarrow> e < BLOCK_SIZE \<Longrightarrow>
      as (row, e) = Some (fa e) \<and> bs (e, col) = Some (gb e)) \<Longrightarrow>
   tile_loop as bs row col e0 acc =
     Some (foldl (\<lambda>acc e. acc + fa e * gb e) acc [e0..BLOCK_SIZE - 1])"
proof (induction "nat (BLOCK_SIZE - e0)" arbitrary: e0 acc)
  case 0
  then have "\<not> e0 < BLOCK_SIZE" by simp
  then show ?case by (simp add: tile_loop.simps)
next
  case (Suc n)
  then have lt: "e0 < BLOCK_SIZE" by linarith
  have l: "as (row, e0) = Some (fa e0)" "bs (e0, col) = Some (gb e0)"
    using Suc.prems[of e0] lt by auto
  have "tile_loop as bs row col (e0 + 1) (acc + fa e0 * gb e0) =
         Some (foldl (\<lambda>acc e. acc + fa e * gb e) (acc + fa e0 * gb e0) [e0 + 1..BLOCK_SIZE - 1])"
  proof (rule Suc.hyps(1))
    show "n = nat (BLOCK_SIZE - (e0 + 1))" using Suc.hyps(2) by linarith
    show "\<And>e. e0 + 1 \<le> e \<Longrightarrow> e < BLOCK_SIZE \<Longrightarrow>
      as (row, e) = Some (fa e) \<and> bs (e, col) = Some (gb e)"
      using Suc.prems by simp
  qed
  moreover have "[e0..BLOCK_SIZE - 1] = e0 # [e0 + 1..BLOCK_SIZE - 1]"
    using lt by (simp add: upto_rec1)
  ultimately show ?case using lt l by (subst tile_loop.simps) simp
qed

lemma foldl_upto_shift:
  "foldl (\<lambda>acc e. h acc (k + e)) acc [i..j] = foldl h acc [k + i..k + j]"
proof (induction "nat (j + 1 - i)" arbitrary: i acc)
  case 0
  then have "j < i" by simp
  then show ?case by simp
next
  case (Suc n)
  then have le: "i \<le> j" by linarith
  have "foldl (\<lambda>acc e. h acc (k + e)) (h acc (k + i)) [i + 1..j] = foldl h (h acc (k + i)) [k + (i + 1)..k + j]"
    by (rule Suc.hyps(1)) (use Suc.hyps(2) in linarith)
  moreover have "[i..j] = i # [i + 1..j]" "[k + i..k + j] = (k + i) # [k + (i + 1)..k + j]"
    using le by (simp_all add: upto_rec1 add.assoc)
  ultimately show ?case by simp
qed

lemma foldl_upto_append:
  fixes i j k :: int
  assumes "i \<le> j" "j \<le> k + 1"
  shows "foldl h (foldl h acc [i..j - 1]) [j..k] = foldl h acc [i..k]"
proof -
  have "[i..k] = [i..j - 1] @ [j..k]"
  proof (cases "j \<le> k")
    case True
    then show ?thesis using assms upto_split1[of i j k] by simp
  next
    case False
    then have "j - 1 = k" using assms by simp
    then show ?thesis using False by simp
  qed
  then show ?thesis by simp
qed

subsection \<open>The phases of a block\<close>

lemma in_block: "t \<in> set (indices (16, 16)) \<longleftrightarrow> fst t < 16 \<and> snd t < 16"
  by (cases t) (simp add: set_indices)

lemma load_phase:
  assumes "\<And>x y. x < 16 \<Longrightarrow> y < 16 \<Longrightarrow>
             load M (elements Asub) (int32 (int32 (int y * stride Asub) + int x)) =
               Some (a (int y) (int x)) \<and>
             load M (elements Bsub) (int32 (int32 (int y * stride Bsub) + int x)) =
               Some (b (int y) (int x))"
  shows "\<exists>s'. for_each (load_tiles M Asub Bsub) (indices (16, 16)) (s :: 'a block_state) = Some s' \<and>
           Cvalue s' = Cvalue s \<and>
           (\<forall>t \<in> set (indices (16, 16)).
              As s' (int (snd t), int (fst t)) = Some (a (int (snd t)) (int (fst t))) \<and>
              Bs s' (int (snd t), int (fst t)) = Some (b (int (snd t)) (int (fst t))))"
proof (rule for_each_invariant[where I = "\<lambda>D s'. Cvalue s' = Cvalue s \<and>
           (\<forall>t \<in> D.
              As s' (int (snd t), int (fst t)) = Some (a (int (snd t)) (int (fst t))) \<and>
              Bs s' (int (snd t), int (fst t)) = Some (b (int (snd t)) (int (fst t))))"])
  show "distinct (indices (16, 16))" by (rule distinct_indices)
  show "Cvalue s = Cvalue s \<and> (\<forall>t\<in>{}. As s (int (snd t), int (fst t)) = Some (a (int (snd t)) (int (fst t))) \<and>
         Bs s (int (snd t), int (fst t)) = Some (b (int (snd t)) (int (fst t))))" by simp
next
  fix t :: dim3 and D and s1 :: "'a block_state"
  assume t: "t \<in> set (indices (16, 16))" and "t \<notin> D"
    and I: "Cvalue s1 = Cvalue s \<and> (\<forall>t\<in>D. As s1 (int (snd t), int (fst t)) = Some (a (int (snd t)) (int (fst t))) \<and>
         Bs s1 (int (snd t), int (fst t)) = Some (b (int (snd t)) (int (fst t))))"
  from t have b16: "fst t < 16" "snd t < 16" by (simp_all add: in_block)
  let ?s2 = "s1\<lparr> As := (As s1)((int (snd t), int (fst t)) \<mapsto> a (int (snd t)) (int (fst t))),
                  Bs := (Bs s1)((int (snd t), int (fst t)) \<mapsto> b (int (snd t)) (int (fst t))) \<rparr>"
  have "load_tiles M Asub Bsub t s1 = Some ?s2"
    using assms[OF b16] b16 by (simp add: load_tiles_def BLOCK_SIZE_def Let_def int_of_unsigned_16)
  moreover have "Cvalue ?s2 = Cvalue s" using I by simp
  moreover have "\<forall>u \<in> insert t D. As ?s2 (int (snd u), int (fst u)) = Some (a (int (snd u)) (int (fst u))) \<and>
         Bs ?s2 (int (snd u), int (fst u)) = Some (b (int (snd u)) (int (fst u)))"
    using I by auto
  ultimately show "\<exists>s2. load_tiles M Asub Bsub t s1 = Some s2 \<and> (Cvalue s2 = Cvalue s \<and>
      (\<forall>t\<in>insert t D. As s2 (int (snd t), int (fst t)) = Some (a (int (snd t)) (int (fst t))) \<and>
         Bs s2 (int (snd t), int (fst t)) = Some (b (int (snd t)) (int (fst t)))))"
    by blast
qed

lemma multiply_phase:
  assumes "\<And>t. t \<in> set (indices (16, 16)) \<Longrightarrow>
             As s (int (snd t), int (fst t)) = Some (a (int (snd t)) (int (fst t))) \<and>
             Bs s (int (snd t), int (fst t)) = Some (b (int (snd t)) (int (fst t)))"
  shows "\<exists>s'. for_each multiply_tiles (indices (16, 16)) (s :: ('a::{zero,plus,times}) block_state) = Some s' \<and>
           (\<forall>t. Cvalue s' t =
              (if t \<in> set (indices (16, 16))
               then foldl (\<lambda>acc e. acc + a (int (snd t)) e * b e (int (fst t))) (Cvalue s t) [0..15]
               else Cvalue s t))"
proof -
  have cells: "As s (r, e) = Some (a r e) \<and> Bs s (r, e) = Some (b r e)"
    if "0 \<le> r" "r < 16" "0 \<le> e" "e < 16" for r e
  proof -
    have "nat e < 16" "nat r < 16" using that by linarith+
    then have "(nat e, nat r) \<in> set (indices (16, 16))" by (simp add: in_block)
    from assms[OF this] show ?thesis using that by simp
  qed
  let ?new = "\<lambda>t. foldl (\<lambda>acc e. acc + a (int (snd t)) e * b e (int (fst t))) (Cvalue s t) [0..15]"
  have "\<exists>s'. for_each multiply_tiles (indices (16, 16)) s = Some s' \<and>
          (As s' = As s \<and> Bs s' = Bs s \<and>
           (\<forall>t. Cvalue s' t = (if t \<in> set (indices (16, 16)) then ?new t else Cvalue s t)))"
  proof (rule for_each_invariant[where I = "\<lambda>D s'. As s' = As s \<and> Bs s' = Bs s \<and>
           (\<forall>t. Cvalue s' t = (if t \<in> D then ?new t else Cvalue s t))"])
    show "distinct (indices (16, 16))" by (rule distinct_indices)
    show "As s = As s \<and> Bs s = Bs s \<and> (\<forall>t. Cvalue s t = (if t \<in> {} then ?new t else Cvalue s t))"
      by simp
  next
    fix t :: dim3 and D and s1 :: "'a block_state"
    assume t: "t \<in> set (indices (16, 16))" and tD: "t \<notin> D"
      and I: "As s1 = As s \<and> Bs s1 = Bs s \<and> (\<forall>t. Cvalue s1 t = (if t \<in> D then ?new t else Cvalue s t))"
    from t have b16: "fst t < 16" "snd t < 16" by (simp_all add: in_block)
    have tl: "tile_loop (As s1) (Bs s1) (int (snd t)) (int (fst t)) 0 (Cvalue s1 t)
          = Some (foldl (\<lambda>acc e. acc + a (int (snd t)) e * b e (int (fst t))) (Cvalue s1 t) [0..BLOCK_SIZE - 1])"
    proof (rule tile_loop_fold)
      fix e :: int assume "0 \<le> e" "e < BLOCK_SIZE"
      then show "As s1 (int (snd t), e) = Some (a (int (snd t)) e) \<and>
                 Bs s1 (e, int (fst t)) = Some (b e (int (fst t)))"
        using I b16 cells[of "int (snd t)" e] cells[of e "int (fst t)"] by (simp add: BLOCK_SIZE_def)
    qed
    have "Cvalue s1 t = (if t \<in> D then ?new t else Cvalue s t)" using I by blast
    then have cv: "Cvalue s1 t = Cvalue s t" using tD by simp
    have "multiply_tiles t s1 = Some (s1\<lparr> Cvalue := (Cvalue s1)(t := ?new t) \<rparr>)"
      using tl cv b16 by (simp add: multiply_tiles_def BLOCK_SIZE_def Let_def int_of_unsigned_16)
    then show "\<exists>s2. multiply_tiles t s1 = Some s2 \<and> (As s2 = As s \<and> Bs s2 = Bs s \<and>
         (\<forall>u. Cvalue s2 u = (if u \<in> insert t D then ?new u else Cvalue s u)))"
      using I by auto
  qed
  then show ?thesis by blast
qed

subsection \<open>The loop over the tiles\<close>

lemma sdiv_BLOCK_SIZE: "0 \<le> w \<Longrightarrow> w sdiv BLOCK_SIZE = w div 16"
  by (cases "w = 0") (simp_all add: signed_divide_int_def BLOCK_SIZE_def sgn_if)

lemma partitioned_body_step:
  fixes M :: "('a::{zero,plus,times}) memory" and s :: "'a block_state"
  assumes vA: "valid_view M A" and vB: "valid_view M B"
    and br: "0 \<le> br" "(br + 1) * 16 \<le> height A"
    and bc: "0 \<le> bc" "(bc + 1) * 16 \<le> width B"
    and m: "0 \<le> m" "(m + 1) * 16 \<le> width A" "(m + 1) * 16 \<le> height B"
  shows "\<exists>s'. partitioned_body M A B br bc (indices (16, 16)) m s = Some s' \<and>
     (\<forall>t. Cvalue s' t =
        (if t \<in> set (indices (16, 16))
         then foldl (\<lambda>acc e. acc + cell M A (br * 16 + int (snd t)) e * cell M B e (bc * 16 + int (fst t)))
                (Cvalue s t) [m * 16..m * 16 + 15]
         else Cvalue s t))"
proof -
  let ?a = "\<lambda>r e. cell M A (br * 16 + r) (m * 16 + e)"
  let ?b = "\<lambda>r e. cell M B (m * 16 + r) (bc * 16 + e)"
  let ?Asub = "GetSubMatrix A br m" and ?Bsub = "GetSubMatrix B m bc"
  have tA: "is_int (stride A * BLOCK_SIZE * br + BLOCK_SIZE * m)"
    and tB: "is_int (stride B * BLOCK_SIZE * m + BLOCK_SIZE * bc)"
    using valid_view_tile(1)[OF vA br m(1,2)] valid_view_tile(1)[OF vB m(1,3) bc] by simp_all
  have loads: "load M (elements ?Asub) (int32 (int32 (int y * stride ?Asub) + int x)) =
                 Some (?a (int y) (int x)) \<and>
               load M (elements ?Bsub) (int32 (int32 (int y * stride ?Bsub) + int x)) =
                 Some (?b (int y) (int x))"
    if "x < 16" "y < 16" for x y
  proof -
    have iA: "int32 (int32 (int y * stride ?Asub) + int x) = int y * stride ?Asub + int x"
      using valid_view_tile(2)[OF vA br m(1,2), of "int y" "int x"] that
      by (simp add: int32_index GetSubMatrix_exact[OF tA])
    have iB: "int32 (int32 (int y * stride ?Bsub) + int x) = int y * stride ?Bsub + int x"
      using valid_view_tile(2)[OF vB m(1,3) bc, of "int y" "int x"] that
      by (simp add: int32_index GetSubMatrix_exact[OF tB])
    have "in_view A (br * 16 + int y) (m * 16 + int x)"
      using that br m by (simp add: in_view_def)
    then have "GetElement M A (br * 16 + int y) (m * 16 + int x) = Some (?a (int y) (int x))"
      by (rule GetElement_valid[OF vA])
    moreover have "in_view B (m * 16 + int y) (bc * 16 + int x)"
      using that bc m by (simp add: in_view_def)
    then have "GetElement M B (m * 16 + int y) (bc * 16 + int x) = Some (?b (int y) (int x))"
      by (rule GetElement_valid[OF vB])
    ultimately show ?thesis
      using GetElement_GetSubMatrix[OF tA, of M "int y" "int x"]
            GetElement_GetSubMatrix[OF tB, of M "int y" "int x"]
      unfolding iA iB by (simp add: GetElement_def BLOCK_SIZE_def)
  qed
  from load_phase[of M ?Asub ?a ?Bsub ?b s, OF loads] obtain s1 where
    s1: "for_each (load_tiles M ?Asub ?Bsub) (indices (16, 16)) s = Some s1" "Cvalue s1 = Cvalue s"
       "\<And>t. t \<in> set (indices (16, 16)) \<Longrightarrow>
              As s1 (int (snd t), int (fst t)) = Some (?a (int (snd t)) (int (fst t))) \<and>
              Bs s1 (int (snd t), int (fst t)) = Some (?b (int (snd t)) (int (fst t)))"
    by blast
  from multiply_phase[of s1 ?a ?b, OF s1(3)] obtain s2 where
    s2: "for_each multiply_tiles (indices (16, 16)) s1 = Some s2"
      "\<And>t. Cvalue s2 t =
              (if t \<in> set (indices (16, 16))
               then foldl (\<lambda>acc e. acc + ?a (int (snd t)) e * ?b e (int (fst t))) (Cvalue s1 t) [0..15]
               else Cvalue s1 t)"
    by blast
  have body: "partitioned_body M A B br bc (indices (16, 16)) m s = Some s2"
    using s1(1) s2(1) by (simp add: partitioned_body_def)
  have shift: "foldl (\<lambda>acc e. acc + cell M A R (m * 16 + e) * cell M B (m * 16 + e) K) acc [0..15]
      = foldl (\<lambda>acc e. acc + cell M A R e * cell M B e K) acc [m * 16..m * 16 + 15]" for R K acc
    using foldl_upto_shift[of "\<lambda>acc e. acc + cell M A R e * cell M B e K" "m * 16" acc 0 15] by simp
  show ?thesis using body s2(2) s1(2) shift by simp
qed

lemma partitioned_loop_iterations:
  "partitioned_loop M A B br bc ts m s =
     iterations (nat (width A sdiv BLOCK_SIZE - m)) (partitioned_body M A B br bc ts) m s"
proof (induction "nat (width A sdiv BLOCK_SIZE - m)" arbitrary: m s)
  case 0
  then have "\<not> m < width A sdiv BLOCK_SIZE" by simp
  then show ?case using 0 by (subst partitioned_loop.simps) simp
next
  case (Suc n)
  then have lt: "m < width A sdiv BLOCK_SIZE" by linarith
  have n: "n = nat (width A sdiv BLOCK_SIZE - (m + 1))" using Suc.hyps(2) by linarith
  have "nat (width A sdiv BLOCK_SIZE - m) = Suc n" using Suc.hyps(2) by simp
  then show ?case
    using lt Suc.hyps(1)[OF n] n
    by (subst partitioned_loop.simps) (simp split: option.splits)
qed

lemma iterations_body:
  fixes M :: "('a::{zero,plus,times}) memory" and s :: "'a block_state"
  assumes vA: "valid_view M A" and vB: "valid_view M B"
    and br: "0 \<le> br" "(br + 1) * 16 \<le> height A"
    and bc: "0 \<le> bc" "(bc + 1) * 16 \<le> width B"
  shows "0 \<le> m \<Longrightarrow> (m + int k) * 16 \<le> width A \<Longrightarrow> (m + int k) * 16 \<le> height B \<Longrightarrow>
    \<exists>s'. iterations k (partitioned_body M A B br bc (indices (16, 16))) m s = Some s' \<and>
     (\<forall>t. Cvalue s' t =
        (if t \<in> set (indices (16, 16))
         then foldl (\<lambda>acc e. acc + cell M A (br * 16 + int (snd t)) e * cell M B e (bc * 16 + int (fst t)))
                (Cvalue s t) [m * 16..(m + int k) * 16 - 1]
         else Cvalue s t))"
proof (induction k arbitrary: m s)
  case 0
  then show ?case by simp
next
  case (Suc k)
  have "(m + 1) * 16 \<le> width A" "(m + 1) * 16 \<le> height B" using Suc.prems by simp_all
  from partitioned_body_step[OF vA vB br bc Suc.prems(1) this, of s] obtain s1 where
    s1: "partitioned_body M A B br bc (indices (16, 16)) m s = Some s1"
        "\<And>t. Cvalue s1 t =
        (if t \<in> set (indices (16, 16))
         then foldl (\<lambda>acc e. acc + cell M A (br * 16 + int (snd t)) e * cell M B e (bc * 16 + int (fst t)))
                (Cvalue s t) [m * 16..m * 16 + 15]
         else Cvalue s t)" by blast
  have "0 \<le> m + 1" "(m + 1 + int k) * 16 \<le> width A" "(m + 1 + int k) * 16 \<le> height B"
    using Suc.prems by (simp_all add: algebra_simps)
  from Suc.IH[OF this, of s1] obtain s2 where
    s2: "iterations k (partitioned_body M A B br bc (indices (16, 16))) (m + 1) s1 = Some s2"
        "\<And>t. Cvalue s2 t =
        (if t \<in> set (indices (16, 16))
         then foldl (\<lambda>acc e. acc + cell M A (br * 16 + int (snd t)) e * cell M B e (bc * 16 + int (fst t)))
                (Cvalue s1 t) [(m + 1) * 16..(m + 1 + int k) * 16 - 1]
         else Cvalue s1 t)" by blast
  have app: "foldl h (foldl h acc [m * 16..m * 16 + 15]) [(m + 1) * 16..(m + 1 + int k) * 16 - 1]
        = foldl h acc [m * 16..(m + int (Suc k)) * 16 - 1]" for h :: "'a \<Rightarrow> int \<Rightarrow> 'a" and acc
    using foldl_upto_append[of "m * 16" "(m + 1) * 16" "(m + 1 + int k) * 16 - 1" h acc]
    by (simp add: algebra_simps)
  show ?case using s1 s2 app by simp
qed

subsection \<open>The effect of a run on memory\<close>

lemma agrees_refl: "agrees M M C"
  by (simp add: agrees_def)

lemma updated_empty: "updated M M C {} f"
  by (simp add: updated_def agrees_refl)

lemma updated_agrees: "updated M M' C S f \<Longrightarrow> agrees M M' C"
  by (simp add: updated_def)

lemma agrees_trans: "agrees M M1 C \<Longrightarrow> agrees M1 M2 C \<Longrightarrow> agrees M M2 C"
  by (simp add: agrees_def)

lemma updated_trans:
  "updated M M1 C S f \<Longrightarrow> updated M1 M2 C S' f \<Longrightarrow> updated M M2 C (S \<union> S') f"
  unfolding updated_def using agrees_trans[of M M1 C M2] by auto

lemma agrees_valid_view: "agrees M M1 C \<Longrightarrow> valid_view M1 C = valid_view M C"
  by (rule valid_view_cong) (simp add: agrees_def)

lemma agrees_other_valid:
  "agrees M M1 C \<Longrightarrow> base (elements A) \<noteq> base (elements C) \<Longrightarrow> valid_view M1 A = valid_view M A"
  by (rule valid_view_cong) (simp add: agrees_def)

lemma agrees_dot_product:
  "agrees M M1 C \<Longrightarrow> base (elements A) \<noteq> base (elements C) \<Longrightarrow>
   base (elements B) \<noteq> base (elements C) \<Longrightarrow>
   dot_product M1 A B r c n = dot_product M A B r c n"
  by (rule dot_product_cong) (simp_all add: agrees_def)

lemma store_updated:
  assumes v: "valid_view M1 C" and rc: "in_view C r0 c0" and f: "f r0 c0 = v"
  shows "\<exists>M2. store M1 (elements C) (r0 * stride C + c0) v = Some M2 \<and> updated M1 M2 C {(r0, c0)} f"
proof -
  from SetElement_valid[OF v rc, of v] obtain buf where
    buf: "M1 (base (elements C)) = Some buf"
    and st: "store M1 (elements C) (r0 * stride C + c0) v =
             Some (M1(base (elements C) \<mapsto> buf[nat (offs (elements C) + (r0 * stride C + c0)) := v]))"
    by (auto simp: SetElement_def)
  let ?M2 = "M1(base (elements C) \<mapsto> buf[nat (offs (elements C) + (r0 * stride C + c0)) := v])"
  have "agrees M1 ?M2 C" using buf by (simp add: agrees_def)
  moreover have "GetElement ?M2 C r c = (if (r, c) \<in> {(r0, c0)} then Some (f r c) else GetElement M1 C r c)"
    if "in_view C r c" for r c
    using GetElement_update[OF v rc that buf, of v] f by auto
  ultimately have "updated M1 ?M2 C {(r0, c0)} f" by (simp add: updated_def)
  then show ?thesis using st by blast
qed

lemma for_each_updated:
  assumes d: "distinct ts"
    and step: "\<And>t M1. t \<in> set ts \<Longrightarrow> agrees M M1 C \<Longrightarrow>
                 \<exists>M2. k t M1 = Some M2 \<and> updated M1 M2 C (S t) f"
  shows "\<exists>M'. for_each k ts M = Some M' \<and> updated M M' C (\<Union>t \<in> set ts. S t) f"
proof (rule for_each_invariant[where I = "\<lambda>D M1. updated M M1 C (\<Union>t \<in> D. S t) f", OF d])
  show "updated M M C (\<Union>t \<in> {}. S t) f" by (simp add: updated_empty)
next
  fix t D M1
  assume t: "t \<in> set ts" and I: "updated M M1 C (\<Union>t \<in> D. S t) f"
  from step[OF t updated_agrees[OF I]] obtain M2 where
    M2: "k t M1 = Some M2" "updated M1 M2 C (S t) f" by blast
  have "updated M M2 C ((\<Union>t \<in> D. S t) \<union> S t) f" by (rule updated_trans[OF I M2(2)])
  moreover have "(\<Union>t \<in> D. S t) \<union> S t = (\<Union>u \<in> insert t D. S u)" by auto
  ultimately show "\<exists>M2. k t M1 = Some M2 \<and> updated M M2 C (\<Union>u \<in> insert t D. S u) f"
    using M2(1) by simp
qed

lemma store_GetSubMatrix:
  assumes "is_int (stride C * BLOCK_SIZE * br + BLOCK_SIZE * bc)"
  shows "store M (elements (GetSubMatrix C br bc)) (r * stride (GetSubMatrix C br bc) + c) v =
   store M (elements C) ((br * BLOCK_SIZE + r) * stride C + (bc * BLOCK_SIZE + c)) v"
proof -
  have e: "offs (elements C) + (stride C * BLOCK_SIZE * br + BLOCK_SIZE * bc) + (r * stride C + c)
        = offs (elements C) + ((br * BLOCK_SIZE + r) * stride C + (bc * BLOCK_SIZE + c))"
    by (simp add: algebra_simps)
  show ?thesis
    unfolding store_def GetSubMatrix_exact[OF assms]
    by (simp only: Matrix.simps ptr.sel e)
qed

lemma Union_tile_block:
  "(\<Union>t \<in> set (indices (16, 16)). {(int (snd b) * 16 + int (snd t), int (fst b) * 16 + int (fst t))}) = tile b"
proof -
  have "\<exists>t \<in> set (indices (16, 16)). r = int (snd b) * 16 + int (snd t) \<and> c = int (fst b) * 16 + int (fst t)"
    if "int (snd b) * 16 \<le> r" "r < int (snd b) * 16 + 16" "int (fst b) * 16 \<le> c" "c < int (fst b) * 16 + 16"
    for r c
    using that
    by (intro bexI[of _ "(nat (c - int (fst b) * 16), nat (r - int (snd b) * 16))"]) (auto simp: in_block)
  then show ?thesis by (auto simp: tile_def in_block)
qed

subsection \<open>Blocks and grids\<close>

lemma partitioned_loop_result:
  fixes M :: "('a::{zero,plus,times}) memory"
  assumes vA: "valid_view M A" and vB: "valid_view M B"
    and W: "0 \<le> width A" "16 * (width A div 16) \<le> height B"
    and rows: "(int (snd b) + 1) * 16 \<le> height A"
    and cols: "(int (fst b) + 1) * 16 \<le> width B"
  shows "\<exists>s. partitioned_loop M A B (int (snd b)) (int (fst b)) (indices (16, 16)) 0
               \<lparr> As = Map.empty, Bs = Map.empty, Cvalue = (\<lambda>t. 0) \<rparr> = Some s \<and>
             (\<forall>t \<in> set (indices (16, 16)).
                Cvalue s t = dot_product M A B (int (snd b) * 16 + int (snd t))
                               (int (fst b) * 16 + int (fst t)) (16 * (width A div 16)))"
proof -
  let ?n = "nat (width A div 16)"
  let ?s0 = "\<lparr> As = Map.empty, Bs = Map.empty, Cvalue = (\<lambda>t. 0::'a) \<rparr>"
  have n: "int ?n = width A div 16" using W by simp
  have le: "(0 + int ?n) * 16 \<le> width A" "(0 + int ?n) * 16 \<le> height B"
    using W n by simp_all
  have loop: "partitioned_loop M A B (int (snd b)) (int (fst b)) (indices (16, 16)) 0 ?s0 =
        iterations ?n (partitioned_body M A B (int (snd b)) (int (fst b)) (indices (16, 16))) 0 ?s0"
    using W by (simp add: partitioned_loop_iterations sdiv_BLOCK_SIZE)
  from iterations_body[OF vA vB _ rows _ cols _ le, of ?s0] obtain s where
    s: "iterations ?n (partitioned_body M A B (int (snd b)) (int (fst b)) (indices (16, 16))) 0 ?s0 = Some s"
       "\<And>t. Cvalue s t =
        (if t \<in> set (indices (16, 16))
         then foldl (\<lambda>acc e. acc + cell M A (int (snd b) * 16 + int (snd t)) e *
                                   cell M B e (int (fst b) * 16 + int (fst t)))
                (Cvalue ?s0 t) [0 * 16..(0 + int ?n) * 16 - 1]
         else Cvalue ?s0 t)"
    by auto
  have "(0 + int ?n) * 16 - 1 = 16 * (width A div 16) - 1" using n by simp
  then have "Cvalue s t = dot_product M A B (int (snd b) * 16 + int (snd t))
                               (int (fst b) * 16 + int (fst t)) (16 * (width A div 16))"
    if "t \<in> set (indices (16, 16))" for t
    using s(2)[of t] that by (simp add: dot_product_def mult.commute)
  then show ?thesis using loop s(1) by simp
qed

lemma partitioned_block_updated:
  fixes M :: "('a::{zero,plus,times}) memory"
  assumes vA: "valid_view M A" and vB: "valid_view M B" and vC: "valid_view M C"
    and W: "0 \<le> width A" "16 * (width A div 16) \<le> height B"
    and rows: "(int (snd b) + 1) * 16 \<le> height A" "(int (snd b) + 1) * 16 \<le> height C"
    and cols: "(int (fst b) + 1) * 16 \<le> width B" "(int (fst b) + 1) * 16 \<le> width C"
  shows "\<exists>M'. MatMulKernelPartitioned A B C (16, 16) b M = Some M' \<and>
           updated M M' C (tile b) (\<lambda>r c. dot_product M A B r c (16 * (width A div 16)))"
proof -
  let ?f = "\<lambda>r c. dot_product M A B r c (16 * (width A div 16))"
  let ?Csub = "GetSubMatrix C (int (snd b)) (int (fst b))"
  have tC: "is_int (stride C * BLOCK_SIZE * int (snd b) + BLOCK_SIZE * int (fst b))"
    using valid_view_tile(1)[OF vC _ rows(2) _ cols(2)] by simp
  have "int (snd b) \<le> height A" "int (fst b) \<le> width B" "height A \<le> INT_MAX" "width B \<le> INT_MAX"
    using rows(1) cols(1) vA vB by (simp_all add: valid_view_def)
  then have bb: "int_of_unsigned (snd b) = int (snd b)" "int_of_unsigned (fst b) = int (fst b)"
    by (simp_all add: int_of_unsigned_id)
  from partitioned_loop_result[OF vA vB W rows(1) cols(1)] obtain s where
    s: "partitioned_loop M A B (int (snd b)) (int (fst b)) (indices (16, 16)) 0
               \<lparr> As = Map.empty, Bs = Map.empty, Cvalue = (\<lambda>t. 0) \<rparr> = Some s"
       "\<And>t. t \<in> set (indices (16, 16)) \<Longrightarrow>
              Cvalue s t = ?f (int (snd b) * 16 + int (snd t)) (int (fst b) * 16 + int (fst t))"
    by blast
  have "\<exists>M'. for_each (write_Csub ?Csub s) (indices (16, 16)) M = Some M' \<and>
          updated M M' C (\<Union>t \<in> set (indices (16, 16)).
             {(int (snd b) * 16 + int (snd t), int (fst b) * 16 + int (fst t))}) ?f"
  proof (rule for_each_updated[OF distinct_indices])
    fix t M1
    assume t: "t \<in> set (indices (16, 16))" and ag: "agrees M M1 C"
    have v1: "valid_view M1 C" using agrees_valid_view[OF ag] vC by simp
    have iv: "in_view C (int (snd b) * 16 + int (snd t)) (int (fst b) * 16 + int (fst t))"
      using t rows cols by (simp add: in_view_def in_block)
    have t16: "fst t < 16" "snd t < 16" using t by (simp_all add: in_block)
    have "is_int (int (snd t) * stride C + int (fst t))"
      using valid_view_tile(2)[OF vC _ rows(2) _ cols(2), of "int (snd t)" "int (fst t)"] t16 by simp
    then have ix: "int32 (int32 (int (snd t) * stride ?Csub) + int (fst t)) =
                   int (snd t) * stride ?Csub + int (fst t)"
      by (simp add: int32_index GetSubMatrix_exact[OF tC])
    have "write_Csub ?Csub s t M1 =
          store M1 (elements C) ((int (snd b) * 16 + int (snd t)) * stride C + (int (fst b) * 16 + int (fst t)))
            (Cvalue s t)"
      using store_GetSubMatrix[OF tC, of M1 "int (snd t)" "int (fst t)" "Cvalue s t"] t16
      by (simp add: write_Csub_def BLOCK_SIZE_def int_of_unsigned_16 ix)
    then show "\<exists>M2. write_Csub ?Csub s t M1 = Some M2 \<and>
            updated M1 M2 C {(int (snd b) * 16 + int (snd t), int (fst b) * 16 + int (fst t))} ?f"
      using store_updated[OF v1 iv, of ?f "Cvalue s t"] s(2)[OF t] by simp
  qed
  then show ?thesis
    using s(1) by (simp add: MatMulKernelPartitioned_def Union_tile_block bb)
qed

lemma general_loop_dot:
  fixes M :: "('a::{zero,plus,times}) memory"
  assumes vA: "valid_view M A" and vB: "valid_view M B"
    and st: "stride A = width A" "stride B = width B"
    and W: "width A \<le> height B"
    and rc: "0 \<le> row" "row < height A" "0 \<le> col" "col < width B"
  shows "general_loop M A B row col 0 0 = Some (dot_product M A B row col (width A))"
proof -
  have "general_loop M A B row col 0 0 =
          Some (foldl (\<lambda>acc e. acc + cell M A row e * cell M B e col) 0 [0..width A - 1])"
  proof (rule general_loop_fold)
    fix e :: int assume e: "0 \<le> e" "e < width A"
    have ivA: "in_view A row e" using e rc by (simp add: in_view_def)
    have ivB: "in_view B e col" using e rc W by (simp add: in_view_def)
    have iA: "int32 (int32 (row * width A) + e) = row * width A + e"
      using valid_view_is_int[OF vA ivA] st by (simp add: int32_index)
    have iB: "int32 (int32 (e * width B) + col) = e * width B + col"
      using valid_view_is_int[OF vB ivB] st by (simp add: int32_index)
    have "GetElement M A row e = Some (cell M A row e)" by (rule GetElement_valid[OF vA ivA])
    moreover have "GetElement M B e col = Some (cell M B e col)" by (rule GetElement_valid[OF vB ivB])
    ultimately show "load M (elements A) (int32 (int32 (row * width A) + e)) = Some (cell M A row e) \<and>
                     load M (elements B) (int32 (int32 (e * width B) + col)) = Some (cell M B e col)"
      unfolding iA iB using st by (simp add: GetElement_def)
  qed
  then show ?thesis by (simp add: dot_product_def)
qed

lemma general_thread_updated:
  fixes M :: "('a::{zero,plus,times}) memory"
  assumes vA: "valid_view M A" and vB: "valid_view M B" and vC: "valid_view M C"
    and st: "stride A = width A" "stride B = width B" "stride C = width C"
    and W: "width A \<le> height B"
    and row: "row = int (snd b * snd d + snd t)" and col: "col = int (fst b * fst d + fst t)"
    and rc: "row < height A" "col < width B" "in_view C row col"
  shows "\<exists>M'. MatMulKernelGeneral A B C b d t M = Some M' \<and>
           updated M M' C {(row, col)} (\<lambda>r c. dot_product M A B r c (width A))"
proof -
  have r0: "0 \<le> row" "0 \<le> col" using row col by simp_all
  have "height A \<le> INT_MAX" "width B \<le> INT_MAX" using vA vB by (simp_all add: valid_view_def)
  then have "int (snd b * snd d + snd t) \<le> INT_MAX" "int (fst b * fst d + fst t) \<le> INT_MAX"
    using rc(1,2) row col by simp_all
  then have u: "int_of_unsigned (snd b * snd d + snd t) = row"
               "int_of_unsigned (fst b * fst d + fst t) = col"
    using row col by (simp_all add: int_of_unsigned_id)
  have loop: "general_loop M A B row col 0 0 = Some (dot_product M A B row col (width A))"
    by (rule general_loop_dot[OF vA vB st(1,2) W r0(1) rc(1) r0(2) rc(2)])
  have ix: "int32 (int32 (row * width C) + col) = row * stride C + col"
    using valid_view_is_int[OF vC rc(3)] st by (simp add: int32_index)
  from store_updated[OF vC rc(3), of "\<lambda>r c. dot_product M A B r c (width A)" "dot_product M A B row col (width A)"]
  show ?thesis using loop by (simp add: MatMulKernelGeneral_def Let_def u ix)
qed

lemma general_block_updated:
  fixes M :: "('a::{zero,plus,times}) memory"
  assumes vA: "valid_view M A" and vB: "valid_view M B" and vC: "valid_view M C"
    and st: "stride A = width A" "stride B = width B" "stride C = width C"
    and ne: "base (elements A) \<noteq> base (elements C)" "base (elements B) \<noteq> base (elements C)"
    and W: "width A \<le> height B"
    and rows: "(int (snd b) + 1) * 16 \<le> height A" "(int (snd b) + 1) * 16 \<le> height C"
    and cols: "(int (fst b) + 1) * 16 \<le> width B" "(int (fst b) + 1) * 16 \<le> width C"
  shows "\<exists>M'. general_block A B C (16, 16) b M = Some M' \<and>
           updated M M' C (tile b) (\<lambda>r c. dot_product M A B r c (width A))"
proof -
  let ?f = "\<lambda>r c. dot_product M A B r c (width A)"
  have "\<exists>M'. for_each (MatMulKernelGeneral A B C b (16, 16)) (indices (16, 16)) M = Some M' \<and>
          updated M M' C (\<Union>t \<in> set (indices (16, 16)).
             {(int (snd b) * 16 + int (snd t), int (fst b) * 16 + int (fst t))}) ?f"
  proof (rule for_each_updated[OF distinct_indices])
    fix t M1
    assume t: "t \<in> set (indices (16, 16))" and ag: "agrees M M1 C"
    have v1: "valid_view M1 A" "valid_view M1 B" "valid_view M1 C"
      using agrees_valid_view[OF ag] agrees_other_valid[OF ag ne(1)] agrees_other_valid[OF ag ne(2)] vA vB vC
      by simp_all
    have f1: "(\<lambda>r c. dot_product M1 A B r c (width A)) = ?f"
      using agrees_dot_product[OF ag ne] by simp
    have "\<exists>M2. MatMulKernelGeneral A B C b (16, 16) t M1 = Some M2 \<and>
            updated M1 M2 C {(int (snd b) * 16 + int (snd t), int (fst b) * 16 + int (fst t))}
              (\<lambda>r c. dot_product M1 A B r c (width A))"
      using t rows cols
      by (intro general_thread_updated[OF v1 st W]) (simp_all add: in_view_def in_block)
    then show "\<exists>M2. MatMulKernelGeneral A B C b (16, 16) t M1 = Some M2 \<and>
            updated M1 M2 C {(int (snd b) * 16 + int (snd t), int (fst b) * 16 + int (fst t))} ?f"
      using f1 by simp
  qed
  then show ?thesis by (simp add: general_block_def Union_tile_block)
qed

lemma run_grid_updated:
  assumes "\<And>b M1. b \<in> set (indices g) \<Longrightarrow> agrees M M1 C \<Longrightarrow>
             \<exists>M2. k (16, 16) b M1 = Some M2 \<and> updated M1 M2 C (tile b) f"
  shows "\<exists>M'. run_grid k g (16, 16) M = Some M' \<and> updated M M' C (\<Union>b \<in> set (indices g). tile b) f"
  unfolding run_grid_def using assms by (intro for_each_updated[OF distinct_indices]) auto

lemma tile_cover:
  assumes "0 \<le> r" "r < 16 * int (snd g)" "0 \<le> c" "c < 16 * int (fst g)"
  shows "(r, c) \<in> (\<Union>b \<in> set (indices g). tile b)"
proof -
  let ?b = "(nat (c div 16), nat (r div 16))"
  have "?b \<in> set (indices g)" using assms by (auto simp: set_indices)
  moreover have "(r, c) \<in> tile ?b" using assms by (auto simp: tile_def)
  ultimately show ?thesis by blast
qed

subsection \<open>The two kernels on the whole grid\<close>

lemma in_indices: "b \<in> set (indices d) \<longleftrightarrow> fst b < fst d \<and> snd b < snd d"
  by (cases b) (simp add: set_indices)

lemma in_grid_bounds:
  assumes "b \<in> set (indices (nat (w div 16), nat (h div 16)))"
  shows "(int (fst b) + 1) * 16 \<le> w" "(int (snd b) + 1) * 16 \<le> h"
proof -
  have "fst b < nat (w div 16)" "snd b < nat (h div 16)"
    using assms by (simp_all add: in_indices)
  then have "int (fst b) + 1 \<le> w div 16" "int (snd b) + 1 \<le> h div 16" by linarith+
  then have "(int (fst b) + 1) * 16 \<le> (w div 16) * 16" "(int (snd b) + 1) * 16 \<le> (h div 16) * 16"
    by simp_all
  moreover have "(w div 16) * 16 \<le> w" "(h div 16) * 16 \<le> h" by simp_all
  ultimately show "(int (fst b) + 1) * 16 \<le> w" "(int (snd b) + 1) * 16 \<le> h" by linarith+
qed

lemma updated_all:
  assumes u: "updated M M' C (\<Union>b \<in> set (indices (nat (width C div 16), nat (height C div 16))). tile b) f"
    and d: "16 dvd width C" "16 dvd height C"
  shows "agrees M M' C \<and> (\<forall>r c. in_view C r c \<longrightarrow> GetElement M' C r c = Some (f r c))"
proof -
  have "(r, c) \<in> (\<Union>b \<in> set (indices (nat (width C div 16), nat (height C div 16))). tile b)"
    if "in_view C r c" for r c
  proof (rule tile_cover)
    have "0 \<le> width C" "0 \<le> height C" using that by (simp_all add: in_view_def)
    then have "16 * int (nat (width C div 16)) = width C" "16 * int (nat (height C div 16)) = height C"
      using d by auto
    then show "0 \<le> r" "r < 16 * int (snd (nat (width C div 16), nat (height C div 16)))"
      "0 \<le> c" "c < 16 * int (fst (nat (width C div 16), nat (height C div 16)))"
      using that by (simp_all add: in_view_def)
  qed
  then show ?thesis using u by (simp add: updated_def)
qed

lemma partitioned_grid:
  fixes M :: "('a::{zero,plus,times}) memory"
  assumes vA: "valid_view M A" and vB: "valid_view M B" and vC: "valid_view M C"
    and inv: "dimension_invariant A B C"
    and ne: "base (elements A) \<noteq> base (elements C)" "base (elements B) \<noteq> base (elements C)"
  shows "\<exists>M'. run_grid (MatMulKernelPartitioned A B C)
                 (nat (width B div 16), nat (height A div 16)) (16, 16) M = Some M' \<and>
           agrees M M' C \<and>
           (\<forall>r c. in_view C r c \<longrightarrow> GetElement M' C r c = Some (dot_product M A B r c (width A)))"
proof -
  let ?f = "\<lambda>r c. dot_product M A B r c (width A)"
  let ?g = "(nat (width B div 16), nat (height A div 16))"
  from inv have dims: "16 dvd width A" "16 dvd width C" "16 dvd height C"
    "width A = height B" "height A = height C" "width B = width C"
    unfolding dimension_invariant_def BLOCK_SIZE_def by blast+
  have W: "0 \<le> width A" "16 * (width A div 16) = width A"
    using vA dims by (auto simp: valid_view_def)
  have "\<exists>M'. run_grid (MatMulKernelPartitioned A B C) ?g (16, 16) M = Some M' \<and>
           updated M M' C (\<Union>b \<in> set (indices ?g). tile b) ?f"
  proof (rule run_grid_updated)
    fix b M1
    assume b: "b \<in> set (indices ?g)" and ag: "agrees M M1 C"
    have v1: "valid_view M1 A" "valid_view M1 B" "valid_view M1 C"
      using agrees_valid_view[OF ag] agrees_other_valid[OF ag ne(1)] agrees_other_valid[OF ag ne(2)] vA vB vC
      by simp_all
    have f1: "(\<lambda>r c. dot_product M1 A B r c (16 * (width A div 16))) = ?f"
      using agrees_dot_product[OF ag ne] W by simp
    have "\<exists>M2. MatMulKernelPartitioned A B C (16, 16) b M1 = Some M2 \<and>
            updated M1 M2 C (tile b) (\<lambda>r c. dot_product M1 A B r c (16 * (width A div 16)))"
      using in_grid_bounds[OF b] W dims
      by (intro partitioned_block_updated[OF v1]) simp_all
    then show "\<exists>M2. MatMulKernelPartitioned A B C (16, 16) b M1 = Some M2 \<and> updated M1 M2 C (tile b) ?f"
      using f1 by simp
  qed
  then obtain M' where M': "run_grid (MatMulKernelPartitioned A B C) ?g (16, 16) M = Some M'"
    "updated M M' C (\<Union>b \<in> set (indices ?g). tile b) ?f" by blast
  from updated_all[of M M' C ?f] M'(2) dims show ?thesis using M'(1) by simp
qed

lemma general_grid:
  fixes M :: "('a::{zero,plus,times}) memory"
  assumes vA: "valid_view M A" and vB: "valid_view M B" and vC: "valid_view M C"
    and st: "stride A = width A" "stride B = width B" "stride C = width C"
    and inv: "dimension_invariant A B C"
    and ne: "base (elements A) \<noteq> base (elements C)" "base (elements B) \<noteq> base (elements C)"
  shows "\<exists>M'. run_grid (general_block A B C)
                 (nat (width B div 16), nat (height A div 16)) (16, 16) M = Some M' \<and>
           agrees M M' C \<and>
           (\<forall>r c. in_view C r c \<longrightarrow> GetElement M' C r c = Some (dot_product M A B r c (width A)))"
proof -
  let ?f = "\<lambda>r c. dot_product M A B r c (width A)"
  let ?g = "(nat (width B div 16), nat (height A div 16))"
  from inv have dims: "16 dvd width A" "16 dvd width C" "16 dvd height C"
    "width A = height B" "height A = height C" "width B = width C"
    unfolding dimension_invariant_def BLOCK_SIZE_def by blast+
  have "\<exists>M'. run_grid (general_block A B C) ?g (16, 16) M = Some M' \<and>
           updated M M' C (\<Union>b \<in> set (indices ?g). tile b) ?f"
  proof (rule run_grid_updated)
    fix b M1
    assume b: "b \<in> set (indices ?g)" and ag: "agrees M M1 C"
    have v1: "valid_view M1 A" "valid_view M1 B" "valid_view M1 C"
      using agrees_valid_view[OF ag] agrees_other_valid[OF ag ne(1)] agrees_other_valid[OF ag ne(2)] vA vB vC
      by simp_all
    have f1: "(\<lambda>r c. dot_product M1 A B r c (width A)) = ?f"
      using agrees_dot_product[OF ag ne] by simp
    have "\<exists>M2. general_block A B C (16, 16) b M1 = Some M2 \<and>
            updated M1 M2 C (tile b) (\<lambda>r c. dot_product M1 A B r c (width A))"
      using in_grid_bounds[OF b] dims
      by (intro general_block_updated[OF v1 st ne]) simp_all
    then show "\<exists>M2. general_block A B C (16, 16) b M1 = Some M2 \<and> updated M1 M2 C (tile b) ?f"
      using f1 by simp
  qed
  then obtain M' where M': "run_grid (general_block A B C) ?g (16, 16) M = Some M'"
    "updated M M' C (\<Union>b \<in> set (indices ?g). tile b) ?f" by blast
  from updated_all[of M M' C ?f] M'(2) dims show ?thesis using M'(1) by simp
qed

lemma upto_16: "[0..15] = [0,1,2,3,4,5,6,7,8,9,10,11,12,13,14,15::int]"
  by code_simp

section \<open>The claims\<close>

text \<open>
  C1. For matrices that satisfy the invariant on the dimensions of section 3, whose
  elements lie in their buffers at indices that the type \<open>int\<close> holds, with the buffer
  of \<open>C\<close> apart from those of \<open>A\<close> and \<open>B\<close>, the tiled kernel run on the grid of
  \<open>(B.width / BLOCK, A.height / BLOCK)\<close> blocks of \<open>BLOCK \<times> BLOCK\<close> workers
  ends without a fault, and afterwards every element
  \<open>C(blockRow * BLOCK + row, blockCol * BLOCK + col)\<close> holds the sum of the products
  \<open>A(blockRow * BLOCK + row, e) * B(e, blockCol * BLOCK + col)\<close> for \<open>e\<close> from
  \<open>0\<close> to \<open>A.width - 1\<close>, added from left to right. The stride of a matrix may
  exceed its width.
\<close>

theorem tiled_kernel_product:
  fixes M :: "('a::{zero,plus,times}) memory"
  assumes "valid_view M A" and "valid_view M B" and "valid_view M C"
    and "dimension_invariant A B C"
    and "base (elements A) \<noteq> base (elements C)" and "base (elements B) \<noteq> base (elements C)"
  shows "\<exists>M'. run_grid (MatMulKernelPartitioned A B C)
                 (nat (width B div BLOCK_SIZE), nat (height A div BLOCK_SIZE))
                 (nat BLOCK_SIZE, nat BLOCK_SIZE) M = Some M' \<and>
           (\<forall>blockRow blockCol row col.
              0 \<le> blockRow \<and> blockRow < height A div BLOCK_SIZE \<and>
              0 \<le> blockCol \<and> blockCol < width B div BLOCK_SIZE \<and>
              0 \<le> row \<and> row < BLOCK_SIZE \<and> 0 \<le> col \<and> col < BLOCK_SIZE \<longrightarrow>
              GetElement M' C (blockRow * BLOCK_SIZE + row) (blockCol * BLOCK_SIZE + col) =
                Some (dot_product M A B (blockRow * BLOCK_SIZE + row) (blockCol * BLOCK_SIZE + col)
                        (width A)))"
proof -
  from partitioned_grid[OF assms] obtain M' where
    run: "run_grid (MatMulKernelPartitioned A B C) (nat (width B div 16), nat (height A div 16)) (16, 16) M = Some M'"
    and cells: "\<And>r c. in_view C r c \<Longrightarrow> GetElement M' C r c = Some (dot_product M A B r c (width A))"
    by blast
  from assms(4) have dims: "height A = height C" "width B = width C"
    unfolding dimension_invariant_def by blast+
  have "in_view C (blockRow * 16 + row) (blockCol * 16 + col)"
    if "0 \<le> blockRow" "blockRow < height A div 16" "0 \<le> blockCol" "blockCol < width B div 16"
       "0 \<le> row" "row < 16" "0 \<le> col" "col < 16" for blockRow blockCol row col
  proof -
    have "(blockRow + 1) * 16 \<le> (height A div 16) * 16" "(blockCol + 1) * 16 \<le> (width B div 16) * 16"
      using that by simp_all
    moreover have "(height A div 16) * 16 \<le> height A" "(width B div 16) * 16 \<le> width B" by simp_all
    ultimately show ?thesis using that dims by (simp add: in_view_def)
  qed
  then show ?thesis using run cells by (simp add: BLOCK_SIZE_def)
qed

theorem tiled_kernel_product_witness:
  "valid_view [0 \<mapsto> replicate 256 (1::int), 1 \<mapsto> replicate 256 2, 2 \<mapsto> replicate 256 0]
     \<lparr>width = 16, height = 16, stride = 16, elements = Ptr 0 0\<rparr> \<and>
   dimension_invariant \<lparr>width = 16, height = 16, stride = 16, elements = Ptr 0 0\<rparr>
     \<lparr>width = 16, height = 16, stride = 16, elements = Ptr 1 0\<rparr>
     \<lparr>width = 16, height = 16, stride = 16, elements = Ptr 2 0\<rparr> \<and>
   (\<exists>M'. run_grid (MatMulKernelPartitioned \<lparr>width = 16, height = 16, stride = 16, elements = Ptr 0 0\<rparr>
                 \<lparr>width = 16, height = 16, stride = 16, elements = Ptr 1 0\<rparr>
                 \<lparr>width = 16, height = 16, stride = 16, elements = Ptr 2 0\<rparr>) (1, 1) (16, 16)
             [0 \<mapsto> replicate 256 (1::int), 1 \<mapsto> replicate 256 2, 2 \<mapsto> replicate 256 0] = Some M' \<and>
          GetElement M' \<lparr>width = 16, height = 16, stride = 16, elements = Ptr 2 0\<rparr> 3 5 = Some 32)"
proof -
  let ?M = "[0 \<mapsto> replicate 256 (1::int), 1 \<mapsto> replicate 256 2, 2 \<mapsto> replicate 256 0]"
  let ?A = "\<lparr>width = 16, height = 16, stride = 16, elements = Ptr 0 0\<rparr>"
  let ?B = "\<lparr>width = 16, height = 16, stride = 16, elements = Ptr 1 0\<rparr>"
  let ?C = "\<lparr>width = 16, height = 16, stride = 16, elements = Ptr 2 0\<rparr>"
  have v: "valid_view ?M ?A" "valid_view ?M ?B" "valid_view ?M ?C"
    by (simp_all add: valid_view_def INT_MAX_def)
  have d: "dimension_invariant ?A ?B ?C"
    by (simp add: dimension_invariant_def BLOCK_SIZE_def)
  have ne: "base (elements ?A) \<noteq> base (elements ?C)" "base (elements ?B) \<noteq> base (elements ?C)"
    by simp_all
  have dp: "dot_product ?M ?A ?B 3 5 16 = 32"
    by (simp add: dot_product_def cell_def GetElement_def load_def upto_16)
  from tiled_kernel_product[OF v d ne] obtain M' where
    run: "run_grid (MatMulKernelPartitioned ?A ?B ?C)
            (nat (width ?B div BLOCK_SIZE), nat (height ?A div BLOCK_SIZE))
            (nat BLOCK_SIZE, nat BLOCK_SIZE) ?M = Some M'"
    and cells: "\<And>blockRow blockCol row col.
              0 \<le> blockRow \<and> blockRow < height ?A div BLOCK_SIZE \<and>
              0 \<le> blockCol \<and> blockCol < width ?B div BLOCK_SIZE \<and>
              0 \<le> row \<and> row < BLOCK_SIZE \<and> 0 \<le> col \<and> col < BLOCK_SIZE \<Longrightarrow>
              GetElement M' ?C (blockRow * BLOCK_SIZE + row) (blockCol * BLOCK_SIZE + col) =
                Some (dot_product ?M ?A ?B (blockRow * BLOCK_SIZE + row) (blockCol * BLOCK_SIZE + col)
                        (width ?A))"
    by blast
  have "GetElement M' ?C 3 5 = Some 32"
    using cells[of 0 0 3 5] dp by (simp add: BLOCK_SIZE_def)
  moreover have "run_grid (MatMulKernelPartitioned ?A ?B ?C) (1, 1) (16, 16) ?M = Some M'"
    using run by (simp add: BLOCK_SIZE_def)
  ultimately show ?thesis using v d by blast
qed

text \<open>
  C3. In the direct kernel, a worker whose execution index gives the coordinates
  \<open>(row, col)\<close> of an element of \<open>C\<close> computes, by its one loop over \<open>e\<close> from
  \<open>0\<close> to \<open>A.width - 1\<close>, the sum of the products \<open>A(row, e) * B(e, col)\<close> added
  from left to right, and writes it to \<open>C(row, col)\<close>: the memory after the worker is
  the memory before it with that one cell of the buffer of \<open>C\<close> replaced. The
  matrices are full ones (stride equal to width) with matching dimensions, whose
  elements lie in their buffers at indices that the type \<open>int\<close> holds; \<open>row\<close> and
  \<open>col\<close> are the values that lines 75 and 76 compute.
\<close>

theorem direct_kernel_worker:
  fixes M :: "('a::{zero,plus,times}) memory"
  assumes "valid_view M A" and "valid_view M B" and "valid_view M C"
    and "stride A = width A" and "stride B = width B" and "stride C = width C"
    and "width A = height B" and "height A = height C" and "width B = width C"
    and "row = int_of_unsigned (snd blockIdx * snd blockDim + snd threadIdx)"
    and "col = int_of_unsigned (fst blockIdx * fst blockDim + fst threadIdx)"
    and "in_view C row col"
  shows "\<exists>buf. M (base (elements C)) = Some buf \<and>
           general_loop M A B row col 0 0 = Some (dot_product M A B row col (width A)) \<and>
           MatMulKernelGeneral A B C blockIdx blockDim threadIdx M =
             Some (M(base (elements C) \<mapsto>
                     buf[nat (offs (elements C) + (row * stride C + col)) :=
                           dot_product M A B row col (width A)])) \<and>
           GetElement (M(base (elements C) \<mapsto>
                     buf[nat (offs (elements C) + (row * stride C + col)) :=
                           dot_product M A B row col (width A)])) C row col =
             Some (dot_product M A B row col (width A))"
proof -
  have rc: "0 \<le> row" "row < height A" "0 \<le> col" "col < width B"
    using assms(8,9,12) by (simp_all add: in_view_def)
  have loop: "general_loop M A B row col 0 0 = Some (dot_product M A B row col (width A))"
    using assms(7) by (intro general_loop_dot[OF assms(1,2,4,5) _ rc]) simp
  from SetElement_valid[OF assms(3,12), of "dot_product M A B row col (width A)"] obtain buf where
    buf: "M (base (elements C)) = Some buf"
    and st: "SetElement M C row col (dot_product M A B row col (width A)) =
             Some (M(base (elements C) \<mapsto>
                     buf[nat (offs (elements C) + (row * stride C + col)) :=
                           dot_product M A B row col (width A)]))"
    by blast
  have ix: "int32 (int32 (row * width C) + col) = row * stride C + col"
    using valid_view_is_int[OF assms(3,12)] assms(6) by (simp add: int32_index)
  have run: "MatMulKernelGeneral A B C blockIdx blockDim threadIdx M =
          SetElement M C row col (dot_product M A B row col (width A))"
    using loop assms(10,11) ix by (simp add: MatMulKernelGeneral_def SetElement_def Let_def)
  have "GetElement (M(base (elements C) \<mapsto>
                     buf[nat (offs (elements C) + (row * stride C + col)) :=
                           dot_product M A B row col (width A)])) C row col =
             Some (dot_product M A B row col (width A))"
    using GetElement_update[OF assms(3,12,12) buf] by simp
  then show ?thesis using buf loop run st by simp
qed

theorem direct_kernel_worker_witness:
  "valid_view [0 \<mapsto> replicate 256 (1::int), 1 \<mapsto> replicate 256 2, 2 \<mapsto> replicate 256 0]
     \<lparr>width = 16, height = 16, stride = 16, elements = Ptr 0 0\<rparr> \<and>
   in_view \<lparr>width = 16, height = 16, stride = 16, elements = Ptr 2 0\<rparr> 3 5 \<and>
   MatMulKernelGeneral \<lparr>width = 16, height = 16, stride = 16, elements = Ptr 0 0\<rparr>
       \<lparr>width = 16, height = 16, stride = 16, elements = Ptr 1 0\<rparr>
       \<lparr>width = 16, height = 16, stride = 16, elements = Ptr 2 0\<rparr> (0, 0) (16, 16) (5, 3)
       [0 \<mapsto> replicate 256 (1::int), 1 \<mapsto> replicate 256 2, 2 \<mapsto> replicate 256 0] =
     Some [0 \<mapsto> replicate 256 1, 1 \<mapsto> replicate 256 2, 2 \<mapsto> (replicate 256 0)[53 := 32]]"
proof -
  let ?M = "[0 \<mapsto> replicate 256 (1::int), 1 \<mapsto> replicate 256 2, 2 \<mapsto> replicate 256 0]"
  let ?A = "\<lparr>width = 16, height = 16, stride = 16, elements = Ptr 0 0\<rparr>"
  let ?B = "\<lparr>width = 16, height = 16, stride = 16, elements = Ptr 1 0\<rparr>"
  let ?C = "\<lparr>width = 16, height = 16, stride = 16, elements = Ptr 2 0\<rparr>"
  have v: "valid_view ?M ?A" "valid_view ?M ?B" "valid_view ?M ?C"
    by (simp_all add: valid_view_def INT_MAX_def)
  have s: "stride ?A = width ?A" "stride ?B = width ?B" "stride ?C = width ?C"
    "width ?A = height ?B" "height ?A = height ?C" "width ?B = width ?C"
    by simp_all
  have rc: "3 = int_of_unsigned (snd (0::nat, 0::nat) * snd (16::nat, 16::nat) + snd (5::nat, 3::nat))"
    "5 = int_of_unsigned (fst (0::nat, 0::nat) * fst (16::nat, 16::nat) + fst (5::nat, 3::nat))"
    by (simp_all add: int_of_unsigned_def int32_def)
  have iv: "in_view ?C 3 5" by (simp add: in_view_def)
  have dp: "dot_product ?M ?A ?B 3 5 16 = 32"
    by (simp add: dot_product_def cell_def GetElement_def load_def upto_16)
  from direct_kernel_worker[OF v s rc iv] obtain buf where
    "?M (base (elements ?C)) = Some buf"
    "MatMulKernelGeneral ?A ?B ?C (0, 0) (16, 16) (5, 3) ?M =
       Some (?M(base (elements ?C) \<mapsto>
               buf[nat (offs (elements ?C) + (3 * stride ?C + 5)) := dot_product ?M ?A ?B 3 5 (width ?A)]))"
    by blast
  then have "MatMulKernelGeneral ?A ?B ?C (0, 0) (16, 16) (5, 3) ?M =
       Some (?M(2 \<mapsto> (replicate 256 0)[53 := 32]))"
    using dp by auto
  then show ?thesis using v iv by simp
qed

text \<open>
  C5. For a parent view \<open>A\<close> and block indices that are not negative, with
  \<open>(blockRow + 1) * BLOCK \<le> A.height\<close> and \<open>(blockCol + 1) * BLOCK \<le> A.width\<close>, and
  such that the offset \<open>A.stride * BLOCK * blockRow + BLOCK * blockCol\<close> is a value of
  the type \<open>int\<close>, in which line 104 computes it, the tile accessor returns a view of
  width and height \<open>BLOCK\<close> with the stride of the parent, whose data pointer is in the
  buffer of the parent at that element offset past the parent's; each of its elements
  \<open>(r, c)\<close> is the element \<open>(blockRow * BLOCK + r, blockCol * BLOCK + c)\<close> of the
  parent. The accessor is a function of the descriptor and the two indices alone: it
  takes no memory and returns none, so it copies, allocates and writes nothing.
\<close>

theorem GetSubMatrix_view:
  assumes "0 \<le> blockRow" and "0 \<le> blockCol"
    and "(blockRow + 1) * BLOCK_SIZE \<le> height A"
    and "(blockCol + 1) * BLOCK_SIZE \<le> width A"
    and "is_int (stride A * BLOCK_SIZE * blockRow + BLOCK_SIZE * blockCol)"
  shows "width (GetSubMatrix A blockRow blockCol) = BLOCK_SIZE \<and>
   height (GetSubMatrix A blockRow blockCol) = BLOCK_SIZE \<and>
   stride (GetSubMatrix A blockRow blockCol) = stride A \<and>
   base (elements (GetSubMatrix A blockRow blockCol)) = base (elements A) \<and>
   offs (elements (GetSubMatrix A blockRow blockCol)) =
     offs (elements A) + (stride A * BLOCK_SIZE * blockRow + BLOCK_SIZE * blockCol) \<and>
   (\<forall>M r c. in_view (GetSubMatrix A blockRow blockCol) r c \<longrightarrow>
      in_view A (blockRow * BLOCK_SIZE + r) (blockCol * BLOCK_SIZE + c) \<and>
      GetElement M (GetSubMatrix A blockRow blockCol) r c =
        GetElement M A (blockRow * BLOCK_SIZE + r) (blockCol * BLOCK_SIZE + c))"
proof -
  have "in_view A (blockRow * BLOCK_SIZE + r) (blockCol * BLOCK_SIZE + c)"
    if "in_view (GetSubMatrix A blockRow blockCol) r c" for r c
    using that assms(1-4) by (simp add: in_view_def GetSubMatrix_def BLOCK_SIZE_def)
  then have "\<forall>M r c. in_view (GetSubMatrix A blockRow blockCol) r c \<longrightarrow>
      in_view A (blockRow * BLOCK_SIZE + r) (blockCol * BLOCK_SIZE + c) \<and>
      GetElement M (GetSubMatrix A blockRow blockCol) r c =
        GetElement M A (blockRow * BLOCK_SIZE + r) (blockCol * BLOCK_SIZE + c)"
    using GetElement_GetSubMatrix[OF assms(5)] by blast
  moreover have "width (GetSubMatrix A blockRow blockCol) = BLOCK_SIZE"
    "height (GetSubMatrix A blockRow blockCol) = BLOCK_SIZE"
    "stride (GetSubMatrix A blockRow blockCol) = stride A"
    "base (elements (GetSubMatrix A blockRow blockCol)) = base (elements A)"
    "offs (elements (GetSubMatrix A blockRow blockCol)) =
       offs (elements A) + (stride A * BLOCK_SIZE * blockRow + BLOCK_SIZE * blockCol)"
    by (simp_all add: GetSubMatrix_exact[OF assms(5)])
  ultimately show ?thesis by blast
qed

theorem GetSubMatrix_view_witness:
  "(1 + 1) * BLOCK_SIZE \<le> height \<lparr>width = 48, height = 32, stride = 64, elements = Ptr 7 5\<rparr> \<and>
   (2 + 1) * BLOCK_SIZE \<le> width \<lparr>width = 48, height = 32, stride = 64, elements = Ptr 7 5\<rparr> \<and>
   is_int (stride \<lparr>width = 48, height = 32, stride = 64, elements = Ptr 7 5\<rparr> * BLOCK_SIZE * 1 +
           BLOCK_SIZE * 2) \<and>
   GetSubMatrix \<lparr>width = 48, height = 32, stride = 64, elements = Ptr 7 5\<rparr> 1 2 =
     \<lparr>width = 16, height = 16, stride = 64, elements = Ptr 7 1061\<rparr> \<and>
   in_view \<lparr>width = 48, height = 32, stride = 64, elements = Ptr 7 5\<rparr> (1 * BLOCK_SIZE + 3) (2 * BLOCK_SIZE + 4)"
proof -
  let ?A = "\<lparr>width = 48, height = 32, stride = 64, elements = Ptr 7 5\<rparr>"
  have h: "(0::int) \<le> 1" "(0::int) \<le> 2" "(1 + 1) * BLOCK_SIZE \<le> height ?A" "(2 + 1) * BLOCK_SIZE \<le> width ?A"
    "is_int (stride ?A * BLOCK_SIZE * 1 + BLOCK_SIZE * 2)"
    by (simp_all add: BLOCK_SIZE_def is_int_def INT_MAX_def)
  note G = GetSubMatrix_view[OF h]
  from G have f: "width (GetSubMatrix ?A 1 2) = BLOCK_SIZE" "height (GetSubMatrix ?A 1 2) = BLOCK_SIZE"
    "stride (GetSubMatrix ?A 1 2) = stride ?A" "base (elements (GetSubMatrix ?A 1 2)) = base (elements ?A)"
    "offs (elements (GetSubMatrix ?A 1 2)) = offs (elements ?A) + (stride ?A * BLOCK_SIZE * 1 + BLOCK_SIZE * 2)"
    by blast+
  have fields: "width (GetSubMatrix ?A 1 2) = 16" "height (GetSubMatrix ?A 1 2) = 16"
    "stride (GetSubMatrix ?A 1 2) = 64" "base (elements (GetSubMatrix ?A 1 2)) = 7"
    "offs (elements (GetSubMatrix ?A 1 2)) = 1061"
    using f by (simp_all add: BLOCK_SIZE_def)
  have iv: "in_view (GetSubMatrix ?A 1 2) 3 4"
    using fields by (simp add: in_view_def)
  have "GetSubMatrix ?A 1 2 = \<lparr>width = 16, height = 16, stride = 64, elements = Ptr 7 1061\<rparr>"
    using fields by (cases "GetSubMatrix ?A 1 2"; cases "elements (GetSubMatrix ?A 1 2)") simp
  moreover have "in_view ?A (1 * BLOCK_SIZE + 3) (2 * BLOCK_SIZE + 4)"
    using G iv by blast
  ultimately show ?thesis using h by blast
qed

text \<open>
  C8. When \<open>A.width\<close> is not negative, the loop of the tiled kernel over the tiles
  runs its body exactly \<open>A.width div BLOCK\<close> times, whether or not \<open>BLOCK\<close> divides
  \<open>A.width\<close>. When the elements read lie in the buffers, at indices that the type
  \<open>int\<close> holds, the loop ends and the accumulator of every worker is the sum of the first \<open>BLOCK * (A.width div BLOCK)\<close>
  products, so that the contraction indices from there to \<open>A.width - 1\<close> add nothing.
\<close>

theorem tiled_loop_count:
  fixes M :: "('a::{zero,plus,times}) memory"
  assumes "0 \<le> width A"
  shows "partitioned_loop M A B blockRow blockCol ts 0 s =
           iterations (nat (width A div BLOCK_SIZE)) (partitioned_body M A B blockRow blockCol ts) 0 s \<and>
         (valid_view M A \<and> valid_view M B \<and>
          BLOCK_SIZE * (width A div BLOCK_SIZE) \<le> height B \<and>
          (int (snd blockIdx) + 1) * BLOCK_SIZE \<le> height A \<and>
          (int (fst blockIdx) + 1) * BLOCK_SIZE \<le> width B \<longrightarrow>
          (\<exists>s'. partitioned_loop M A B (int (snd blockIdx)) (int (fst blockIdx))
                   (indices (nat BLOCK_SIZE, nat BLOCK_SIZE)) 0
                   \<lparr> As = Map.empty, Bs = Map.empty, Cvalue = (\<lambda>t. 0) \<rparr> = Some s' \<and>
                (\<forall>threadIdx \<in> set (indices (nat BLOCK_SIZE, nat BLOCK_SIZE)).
                   Cvalue s' threadIdx =
                     dot_product M A B (int (snd blockIdx) * BLOCK_SIZE + int (snd threadIdx))
                       (int (fst blockIdx) * BLOCK_SIZE + int (fst threadIdx))
                       (BLOCK_SIZE * (width A div BLOCK_SIZE)))))"
proof -
  have "partitioned_loop M A B blockRow blockCol ts 0 s =
           iterations (nat (width A div BLOCK_SIZE)) (partitioned_body M A B blockRow blockCol ts) 0 s"
  proof -
    have "width A sdiv BLOCK_SIZE = width A div BLOCK_SIZE"
      using sdiv_BLOCK_SIZE[OF assms] by (simp add: BLOCK_SIZE_def)
    then show ?thesis by (simp add: partitioned_loop_iterations)
  qed
  moreover have "\<exists>s'. partitioned_loop M A B (int (snd blockIdx)) (int (fst blockIdx))
                   (indices (nat BLOCK_SIZE, nat BLOCK_SIZE)) 0
                   \<lparr> As = Map.empty, Bs = Map.empty, Cvalue = (\<lambda>t. 0) \<rparr> = Some s' \<and>
                (\<forall>threadIdx \<in> set (indices (nat BLOCK_SIZE, nat BLOCK_SIZE)).
                   Cvalue s' threadIdx =
                     dot_product M A B (int (snd blockIdx) * BLOCK_SIZE + int (snd threadIdx))
                       (int (fst blockIdx) * BLOCK_SIZE + int (fst threadIdx))
                       (BLOCK_SIZE * (width A div BLOCK_SIZE)))"
    if "valid_view M A" "valid_view M B" "BLOCK_SIZE * (width A div BLOCK_SIZE) \<le> height B"
       "(int (snd blockIdx) + 1) * BLOCK_SIZE \<le> height A" "(int (fst blockIdx) + 1) * BLOCK_SIZE \<le> width B"
    using partitioned_loop_result[OF that(1,2) assms, of blockIdx] that(3,4,5)
    by (simp add: BLOCK_SIZE_def)
  ultimately show ?thesis by blast
qed

theorem tiled_loop_count_witness:
  "(0::int) \<le> width \<lparr>width = 20, height = 16, stride = 20, elements = Ptr 0 0\<rparr> \<and>
   valid_view [0 \<mapsto> replicate 320 (1::int), 1 \<mapsto> replicate 320 2]
     \<lparr>width = 20, height = 16, stride = 20, elements = Ptr 0 0\<rparr> \<and>
   nat (width \<lparr>width = 20, height = 16, stride = 20, elements = Ptr 0 0\<rparr> div BLOCK_SIZE) = 1 \<and>
   (\<exists>s'. partitioned_loop [0 \<mapsto> replicate 320 (1::int), 1 \<mapsto> replicate 320 2]
            \<lparr>width = 20, height = 16, stride = 20, elements = Ptr 0 0\<rparr>
            \<lparr>width = 16, height = 20, stride = 16, elements = Ptr 1 0\<rparr> 0 0 (indices (16, 16)) 0
            \<lparr> As = Map.empty, Bs = Map.empty, Cvalue = (\<lambda>t. 0) \<rparr> = Some s' \<and>
          Cvalue s' (5, 3) = 32)"
proof -
  let ?M = "[0 \<mapsto> replicate 320 (1::int), 1 \<mapsto> replicate 320 2]"
  let ?A = "\<lparr>width = 20, height = 16, stride = 20, elements = Ptr 0 0\<rparr>"
  let ?B = "\<lparr>width = 16, height = 20, stride = 16, elements = Ptr 1 0\<rparr>"
  have w: "0 \<le> width ?A" by simp
  have v: "valid_view ?M ?A" "valid_view ?M ?B" by (simp_all add: valid_view_def INT_MAX_def)
  have b: "BLOCK_SIZE * (width ?A div BLOCK_SIZE) \<le> height ?B"
    "(int (snd (0::nat, 0::nat)) + 1) * BLOCK_SIZE \<le> height ?A"
    "(int (fst (0::nat, 0::nat)) + 1) * BLOCK_SIZE \<le> width ?B"
    by (simp_all add: BLOCK_SIZE_def)
  have n: "nat (width ?A div BLOCK_SIZE) = 1" by (simp add: BLOCK_SIZE_def)
  have t: "(5, 3) \<in> set (indices (nat BLOCK_SIZE, nat BLOCK_SIZE))"
    by (simp add: in_indices BLOCK_SIZE_def)
  have dp: "dot_product ?M ?A ?B 3 5 16 = 32"
    by (simp add: dot_product_def cell_def GetElement_def load_def upto_16)
  from tiled_loop_count[OF w, of ?M ?B 0 0 "indices (16, 16)"
        "\<lparr> As = Map.empty, Bs = Map.empty, Cvalue = (\<lambda>t. 0) \<rparr>" "(0, 0)"] v b
  obtain s' where
    s': "partitioned_loop ?M ?A ?B (int (snd (0::nat, 0::nat))) (int (fst (0::nat, 0::nat)))
           (indices (nat BLOCK_SIZE, nat BLOCK_SIZE)) 0
           \<lparr> As = Map.empty, Bs = Map.empty, Cvalue = (\<lambda>t. 0) \<rparr> = Some s'"
    and cv: "\<And>threadIdx. threadIdx \<in> set (indices (nat BLOCK_SIZE, nat BLOCK_SIZE)) \<Longrightarrow>
               Cvalue s' threadIdx =
                 dot_product ?M ?A ?B (int (snd (0::nat, 0::nat)) * BLOCK_SIZE + int (snd threadIdx))
                   (int (fst (0::nat, 0::nat)) * BLOCK_SIZE + int (fst threadIdx))
                   (BLOCK_SIZE * (width ?A div BLOCK_SIZE))"
    by blast
  have "Cvalue s' (5, 3) = 32" using cv[OF t] dp by (simp add: BLOCK_SIZE_def)
  moreover have "partitioned_loop ?M ?A ?B 0 0 (indices (16, 16)) 0
           \<lparr> As = Map.empty, Bs = Map.empty, Cvalue = (\<lambda>t. 0) \<rparr> = Some s'"
    using s' by (simp add: BLOCK_SIZE_def)
  ultimately show ?thesis using w v n by blast
qed

lemma SetElement_GetSubMatrix:
  assumes "is_int (stride A * BLOCK_SIZE * br + BLOCK_SIZE * bc)"
  shows "SetElement M (GetSubMatrix A br bc) r c v =
   SetElement M A (br * BLOCK_SIZE + r) (bc * BLOCK_SIZE + c) v"
  using store_GetSubMatrix[OF assms, of M r c v] by (simp add: SetElement_def)

text \<open>
  C9, as amended. As long as the index that the code computes is a value of the type
  \<open>int\<close>, every access of the tile accessor and of the tiled kernel follows the
  layout rule whatever the stride: an element \<open>(r, c)\<close> of a tile is the element
  \<open>(blockRow * BLOCK + r, blockCol * BLOCK + c)\<close> of the parent, the two reads of lines
  135 and 136 are reads of the element \<open>(row, col)\<close> of the views \<open>Asub\<close> and \<open>Bsub\<close>,
  and the write of line 150 is a write of the element \<open>(row, col)\<close> of \<open>Csub\<close>. The
  direct kernel indexes with the width, whatever the stride: it reads \<open>A\<close> at
  \<open>row * A.width + e\<close>, \<open>B\<close> at \<open>e * B.width + col\<close> and writes \<open>C\<close> at
  \<open>row * C.width + col\<close>, which are the accesses that the layout rule gives for the
  same matrices with their width as the stride; for a matrix whose stride equals its
  width, as the matrices that \<open>MatMul\<close> passes are, this is the layout rule.
\<close>

theorem layout_rule_of_accesses:
  fixes M :: "('a::{zero,plus,times}) memory" and s :: "'a block_state"
  shows "(is_int (stride A * BLOCK_SIZE * blockRow + BLOCK_SIZE * blockCol) \<longrightarrow>
            GetElement M (GetSubMatrix A blockRow blockCol) r c =
              GetElement M A (blockRow * BLOCK_SIZE + r) (blockCol * BLOCK_SIZE + c) \<and>
            SetElement M (GetSubMatrix A blockRow blockCol) r c v =
              SetElement M A (blockRow * BLOCK_SIZE + r) (blockCol * BLOCK_SIZE + c) v) \<and>
         (is_int (int_of_unsigned (snd threadIdx) * stride Asub + int_of_unsigned (fst threadIdx)) \<and>
          is_int (int_of_unsigned (snd threadIdx) * stride Bsub + int_of_unsigned (fst threadIdx)) \<longrightarrow>
            load_tiles M Asub Bsub threadIdx s =
              (if 0 \<le> int_of_unsigned (snd threadIdx) \<and> int_of_unsigned (snd threadIdx) < BLOCK_SIZE \<and>
                  0 \<le> int_of_unsigned (fst threadIdx) \<and> int_of_unsigned (fst threadIdx) < BLOCK_SIZE
               then
                 (case GetElement M Asub (int_of_unsigned (snd threadIdx))
                         (int_of_unsigned (fst threadIdx)) of
                    None \<Rightarrow> None
                  | Some a \<Rightarrow>
                      (case GetElement M Bsub (int_of_unsigned (snd threadIdx))
                              (int_of_unsigned (fst threadIdx)) of
                         None \<Rightarrow> None
                       | Some b \<Rightarrow>
                           Some (s\<lparr> As := (As s)((int_of_unsigned (snd threadIdx),
                                                   int_of_unsigned (fst threadIdx)) \<mapsto> a),
                                   Bs := (Bs s)((int_of_unsigned (snd threadIdx),
                                                   int_of_unsigned (fst threadIdx)) \<mapsto> b) \<rparr>)))
               else None)) \<and>
         (is_int (int_of_unsigned (snd threadIdx) * stride Csub + int_of_unsigned (fst threadIdx)) \<longrightarrow>
            write_Csub Csub s threadIdx M =
              SetElement M Csub (int_of_unsigned (snd threadIdx)) (int_of_unsigned (fst threadIdx))
                (Cvalue s threadIdx)) \<and>
         (is_int (row * width A + e) \<and> is_int (e * width B + col) \<longrightarrow>
            general_loop M A B row col e acc =
              (if e < width A then
                 (case GetElement M (A\<lparr>stride := width A\<rparr>) row e of
                    None \<Rightarrow> None
                  | Some a \<Rightarrow>
                      (case GetElement M (B\<lparr>stride := width B\<rparr>) e col of
                         None \<Rightarrow> None
                       | Some b \<Rightarrow> general_loop M A B row col (e + 1) (acc + a * b)))
               else Some acc)) \<and>
         (is_int (int_of_unsigned (snd blockIdx * snd blockDim + snd threadIdx) * width C +
                  int_of_unsigned (fst blockIdx * fst blockDim + fst threadIdx)) \<longrightarrow>
            MatMulKernelGeneral A B C blockIdx blockDim threadIdx M =
              (case general_loop M A B (int_of_unsigned (snd blockIdx * snd blockDim + snd threadIdx))
                      (int_of_unsigned (fst blockIdx * fst blockDim + fst threadIdx)) 0 0 of
                 None \<Rightarrow> None
               | Some x \<Rightarrow>
                   SetElement M (C\<lparr>stride := width C\<rparr>)
                     (int_of_unsigned (snd blockIdx * snd blockDim + snd threadIdx))
                     (int_of_unsigned (fst blockIdx * fst blockDim + fst threadIdx)) x)) \<and>
         (stride X = width X \<longrightarrow> X\<lparr>stride := width X\<rparr> = X)"
proof -
  have a: "GetElement M (GetSubMatrix A blockRow blockCol) r c =
              GetElement M A (blockRow * BLOCK_SIZE + r) (blockCol * BLOCK_SIZE + c) \<and>
           SetElement M (GetSubMatrix A blockRow blockCol) r c v =
              SetElement M A (blockRow * BLOCK_SIZE + r) (blockCol * BLOCK_SIZE + c) v"
    if "is_int (stride A * BLOCK_SIZE * blockRow + BLOCK_SIZE * blockCol)"
    using GetElement_GetSubMatrix[OF that, of M r c] SetElement_GetSubMatrix[OF that, of M r c v]
    by simp
  have lt: "load_tiles M Asub Bsub threadIdx s =
              (if 0 \<le> int_of_unsigned (snd threadIdx) \<and> int_of_unsigned (snd threadIdx) < BLOCK_SIZE \<and>
                  0 \<le> int_of_unsigned (fst threadIdx) \<and> int_of_unsigned (fst threadIdx) < BLOCK_SIZE
               then
                 (case GetElement M Asub (int_of_unsigned (snd threadIdx))
                         (int_of_unsigned (fst threadIdx)) of
                    None \<Rightarrow> None
                  | Some a \<Rightarrow>
                      (case GetElement M Bsub (int_of_unsigned (snd threadIdx))
                              (int_of_unsigned (fst threadIdx)) of
                         None \<Rightarrow> None
                       | Some b \<Rightarrow>
                           Some (s\<lparr> As := (As s)((int_of_unsigned (snd threadIdx),
                                                   int_of_unsigned (fst threadIdx)) \<mapsto> a),
                                   Bs := (Bs s)((int_of_unsigned (snd threadIdx),
                                                   int_of_unsigned (fst threadIdx)) \<mapsto> b) \<rparr>)))
               else None)"
    if "is_int (int_of_unsigned (snd threadIdx) * stride Asub + int_of_unsigned (fst threadIdx))"
       "is_int (int_of_unsigned (snd threadIdx) * stride Bsub + int_of_unsigned (fst threadIdx))"
    unfolding load_tiles_def GetElement_def Let_def int32_index[OF that(1)] int32_index[OF that(2)]
    by simp
  have wc: "write_Csub Csub s threadIdx M =
              SetElement M Csub (int_of_unsigned (snd threadIdx)) (int_of_unsigned (fst threadIdx))
                (Cvalue s threadIdx)"
    if "is_int (int_of_unsigned (snd threadIdx) * stride Csub + int_of_unsigned (fst threadIdx))"
    unfolding write_Csub_def SetElement_def Let_def int32_index[OF that] by simp
  have gl: "general_loop M A B row col e acc =
              (if e < width A then
                 (case GetElement M (A\<lparr>stride := width A\<rparr>) row e of
                    None \<Rightarrow> None
                  | Some a \<Rightarrow>
                      (case GetElement M (B\<lparr>stride := width B\<rparr>) e col of
                         None \<Rightarrow> None
                       | Some b \<Rightarrow> general_loop M A B row col (e + 1) (acc + a * b)))
               else Some acc)"
    if "is_int (row * width A + e)" "is_int (e * width B + col)"
  proof -
    have hA: "GetElement M (A\<lparr>stride := width A\<rparr>) row e =
                load M (elements A) (int32 (int32 (row * width A) + e))"
      by (simp add: GetElement_def int32_index[OF that(1)])
    have hB: "GetElement M (B\<lparr>stride := width B\<rparr>) e col =
                load M (elements B) (int32 (int32 (e * width B) + col))"
      by (simp add: GetElement_def int32_index[OF that(2)])
    show ?thesis unfolding hA hB by (subst general_loop.simps) (rule refl)
  qed
  have mk: "MatMulKernelGeneral A B C blockIdx blockDim threadIdx M =
              (case general_loop M A B (int_of_unsigned (snd blockIdx * snd blockDim + snd threadIdx))
                      (int_of_unsigned (fst blockIdx * fst blockDim + fst threadIdx)) 0 0 of
                 None \<Rightarrow> None
               | Some x \<Rightarrow>
                   SetElement M (C\<lparr>stride := width C\<rparr>)
                     (int_of_unsigned (snd blockIdx * snd blockDim + snd threadIdx))
                     (int_of_unsigned (fst blockIdx * fst blockDim + fst threadIdx)) x)"
    if "is_int (int_of_unsigned (snd blockIdx * snd blockDim + snd threadIdx) * width C +
                  int_of_unsigned (fst blockIdx * fst blockDim + fst threadIdx))"
    unfolding MatMulKernelGeneral_def SetElement_def Let_def int32_index[OF that]
    by (simp cong del: option.case_cong_weak)
  have su: "X\<lparr>stride := width X\<rparr> = X" if "stride X = width X"
    using that by (cases X) simp
  show ?thesis
    using a lt wc gl mk su by blast
qed

theorem layout_rule_of_accesses_witness:
  "is_int (stride \<lparr>width = 48, height = 32, stride = 64, elements = Ptr 0 5\<rparr> * BLOCK_SIZE * 1 +
           BLOCK_SIZE * 2) \<and>
   GetElement [0 \<mapsto> [1, 2, 3, 4], 1 \<mapsto> [1, 0, 0, 1], 2 \<mapsto> [0, 0, 0, 0::int]]
     (GetSubMatrix \<lparr>width = 48, height = 32, stride = 64, elements = Ptr 0 5\<rparr> 1 2) 3 4 =
   GetElement [0 \<mapsto> [1, 2, 3, 4], 1 \<mapsto> [1, 0, 0, 1], 2 \<mapsto> [0, 0, 0, 0::int]]
     \<lparr>width = 48, height = 32, stride = 64, elements = Ptr 0 5\<rparr> (1 * BLOCK_SIZE + 3) (2 * BLOCK_SIZE + 4) \<and>
   is_int (int_of_unsigned (snd (0::nat, 0::nat) * snd (2::nat, 2::nat) + snd (0::nat, 1::nat)) *
             width \<lparr>width = 2, height = 2, stride = 2, elements = Ptr 2 0\<rparr> +
           int_of_unsigned (fst (0::nat, 0::nat) * fst (2::nat, 2::nat) + fst (0::nat, 1::nat))) \<and>
   MatMulKernelGeneral
     \<lparr>width = 2, height = 2, stride = 2, elements = Ptr 0 0\<rparr>
     \<lparr>width = 2, height = 2, stride = 2, elements = Ptr 1 0\<rparr>
     \<lparr>width = 2, height = 2, stride = 2, elements = Ptr 2 0\<rparr> (0, 0) (2, 2) (0, 1)
     [0 \<mapsto> [1, 2, 3, 4], 1 \<mapsto> [1, 0, 0, 1], 2 \<mapsto> [0, 0, 0, 0::int]]
   = SetElement [0 \<mapsto> [1, 2, 3, 4], 1 \<mapsto> [1, 0, 0, 1], 2 \<mapsto> [0, 0, 0, 0::int]]
       \<lparr>width = 2, height = 2, stride = 2, elements = Ptr 2 0\<rparr> 1 0 3"
proof -
  let ?M = "[0 \<mapsto> [1, 2, 3, 4], 1 \<mapsto> [1, 0, 0, 1], 2 \<mapsto> [0, 0, 0, 0::int]]"
  let ?P = "\<lparr>width = 48, height = 32, stride = 64, elements = Ptr 0 5\<rparr>"
  let ?A = "\<lparr>width = 2, height = 2, stride = 2, elements = Ptr 0 0\<rparr>"
  let ?B = "\<lparr>width = 2, height = 2, stride = 2, elements = Ptr 1 0\<rparr>"
  let ?C = "\<lparr>width = 2, height = 2, stride = 2, elements = Ptr 2 0\<rparr>"
  have u: "int_of_unsigned (snd (0::nat, 0::nat) * snd (2::nat, 2::nat) + snd (0::nat, 1::nat)) = 1"
    "int_of_unsigned (fst (0::nat, 0::nat) * fst (2::nat, 2::nat) + fst (0::nat, 1::nat)) = 0"
    by (simp_all add: int_of_unsigned_def int32_def)
  have hP: "is_int (stride ?P * BLOCK_SIZE * 1 + BLOCK_SIZE * 2)"
    by (simp add: is_int_def INT_MAX_def BLOCK_SIZE_def)
  have hC: "is_int (int_of_unsigned (snd (0::nat, 0::nat) * snd (2::nat, 2::nat) + snd (0::nat, 1::nat)) *
             width ?C + int_of_unsigned (fst (0::nat, 0::nat) * fst (2::nat, 2::nat) + fst (0::nat, 1::nat)))"
    unfolding u by (simp add: is_int_def INT_MAX_def)
  have hl: "is_int (1 * width ?A + e) \<and> is_int (e * width ?B + 0)" if "0 \<le> e" "e \<le> 2" for e
    using that by (simp add: is_int_def INT_MAX_def)
  have tile: "GetElement ?M (GetSubMatrix ?P 1 2) 3 4 =
              GetElement ?M ?P (1 * BLOCK_SIZE + 3) (2 * BLOCK_SIZE + 4)"
    using layout_rule_of_accesses[where A = ?P and blockRow = 1 and blockCol = 2 and M = ?M
        and r = 3 and c = 4] hP by blast
  have step: "general_loop ?M ?A ?B 1 0 e acc =
              (if e < width ?A then
                 (case GetElement ?M (?A\<lparr>stride := width ?A\<rparr>) 1 e of
                    None \<Rightarrow> None
                  | Some a \<Rightarrow>
                      (case GetElement ?M (?B\<lparr>stride := width ?B\<rparr>) e 0 of
                         None \<Rightarrow> None
                       | Some b \<Rightarrow> general_loop ?M ?A ?B 1 0 (e + 1) (acc + a * b)))
               else Some acc)" if "0 \<le> e" "e \<le> 2" for e acc
    using layout_rule_of_accesses[where A = ?A and B = ?B and row = 1 and col = 0 and e = e
        and acc = acc and M = ?M] hl[OF that] by blast
  have "general_loop ?M ?A ?B 1 0 0 0 = Some 3"
    by (subst step, simp, simp, subst step, simp, simp, subst step, simp, simp,
        simp add: GetElement_def load_def)
  moreover have "MatMulKernelGeneral ?A ?B ?C (0, 0) (2, 2) (0, 1) ?M =
      (case general_loop ?M ?A ?B
              (int_of_unsigned (snd (0::nat, 0::nat) * snd (2::nat, 2::nat) + snd (0::nat, 1::nat)))
              (int_of_unsigned (fst (0::nat, 0::nat) * fst (2::nat, 2::nat) + fst (0::nat, 1::nat))) 0 0 of
         None \<Rightarrow> None
       | Some x \<Rightarrow> SetElement ?M (?C\<lparr>stride := width ?C\<rparr>)
                   (int_of_unsigned (snd (0::nat, 0::nat) * snd (2::nat, 2::nat) + snd (0::nat, 1::nat)))
                   (int_of_unsigned (fst (0::nat, 0::nat) * fst (2::nat, 2::nat) + fst (0::nat, 1::nat))) x)"
    using layout_rule_of_accesses[where C = ?C and A = ?A and B = ?B and blockIdx = "(0, 0)"
        and blockDim = "(2, 2)" and threadIdx = "(0, 1)" and M = ?M] hC by blast
  ultimately have "MatMulKernelGeneral ?A ?B ?C (0, 0) (2, 2) (0, 1) ?M = SetElement ?M ?C 1 0 3"
    unfolding u by simp
  then show ?thesis using hP hC tile by blast
qed

text \<open>
  C9 as stated fails for the direct kernel. With \<open>A\<close> and \<open>C\<close> of width 2 and stride
  3, the worker of the element \<open>(1, 0)\<close> reads \<open>A\<close> at the offsets 2 and 3, where the
  layout rule puts the row 1 at the offsets 3 and 4, and writes the cell 2 of the buffer
  of \<open>C\<close>, where the layout rule puts \<open>C(1, 0)\<close> in the cell 3. It also fails for
  the tile accessor where the offset leaves the type \<open>int\<close>: in a view of stride
  \<open>2 ^ 27\<close> the element \<open>(16, 0)\<close> is the cell \<open>2 ^ 31\<close> of the buffer, and the tile
  \<open>(1, 0)\<close> starts at the offset \<open>- 2 ^ 31\<close>, outside the buffer.
\<close>

theorem direct_kernel_layout_counterexample:
  "stride \<lparr>width = 2, height = 2, stride = 3, elements = Ptr 0 0\<rparr>
     \<noteq> width \<lparr>width = 2, height = 2, stride = 3, elements = Ptr 0 0\<rparr> \<and>
   MatMulKernelGeneral
     \<lparr>width = 2, height = 2, stride = 3, elements = Ptr 0 0\<rparr>
     \<lparr>width = 2, height = 2, stride = 2, elements = Ptr 1 0\<rparr>
     \<lparr>width = 2, height = 2, stride = 3, elements = Ptr 2 0\<rparr> (0, 0) (2, 2) (0, 1)
     [0 \<mapsto> [1, 2, 9, 3, 4, 9], 1 \<mapsto> [1, 0, 0, 1], 2 \<mapsto> [0, 0, 0, 0, 0, 0::int]]
   = Some [0 \<mapsto> [1, 2, 9, 3, 4, 9], 1 \<mapsto> [1, 0, 0, 1], 2 \<mapsto> [0, 0, 9, 0, 0, 0]] \<and>
   GetElement [0 \<mapsto> [1, 2, 9, 3, 4, 9], 1 \<mapsto> [1, 0, 0, 1], 2 \<mapsto> [0, 0, 0, 0, 0, 0::int]]
     \<lparr>width = 2, height = 2, stride = 3, elements = Ptr 0 0\<rparr> 1 0 = Some 3 \<and>
   SetElement [0 \<mapsto> [1, 2, 9, 3, 4, 9], 1 \<mapsto> [1, 0, 0, 1], 2 \<mapsto> [0, 0, 0, 0, 0, 0::int]]
     \<lparr>width = 2, height = 2, stride = 3, elements = Ptr 2 0\<rparr> 1 0 9
   = Some [0 \<mapsto> [1, 2, 9, 3, 4, 9], 1 \<mapsto> [1, 0, 0, 1], 2 \<mapsto> [0, 0, 0, 9, 0, 0]] \<and>
   GetElement [0 \<mapsto> replicate 4294967296 (1::int)]
     \<lparr>width = 134217728, height = 32, stride = 134217728, elements = Ptr 0 0\<rparr> 16 0 = Some 1 \<and>
   GetElement [0 \<mapsto> replicate 4294967296 (1::int)]
     (GetSubMatrix \<lparr>width = 134217728, height = 32, stride = 134217728, elements = Ptr 0 0\<rparr> 1 0)
     0 0 = None"
proof -
  have "MatMulKernelGeneral
     \<lparr>width = 2, height = 2, stride = 3, elements = Ptr 0 0\<rparr>
     \<lparr>width = 2, height = 2, stride = 2, elements = Ptr 1 0\<rparr>
     \<lparr>width = 2, height = 2, stride = 3, elements = Ptr 2 0\<rparr> (0, 0) (2, 2) (0, 1)
     [0 \<mapsto> [1, 2, 9, 3, 4, 9], 1 \<mapsto> [1, 0, 0, 1], 2 \<mapsto> [0, 0, 0, 0, 0, 0::int]]
   = Some [0 \<mapsto> [1, 2, 9, 3, 4, 9], 1 \<mapsto> [1, 0, 0, 1], 2 \<mapsto> [0, 0, 9, 0, 0, 0]]"
    by (simp add: MatMulKernelGeneral_def general_loop.simps load_def store_def
        Let_def int_of_unsigned_def int32_def)
  moreover have "GetElement [0 \<mapsto> [1, 2, 9, 3, 4, 9], 1 \<mapsto> [1, 0, 0, 1], 2 \<mapsto> [0, 0, 0, 0, 0, 0::int]]
     \<lparr>width = 2, height = 2, stride = 3, elements = Ptr 0 0\<rparr> 1 0 = Some 3"
    by (simp add: GetElement_def load_def)
  moreover have "SetElement [0 \<mapsto> [1, 2, 9, 3, 4, 9], 1 \<mapsto> [1, 0, 0, 1], 2 \<mapsto> [0, 0, 0, 0, 0, 0::int]]
     \<lparr>width = 2, height = 2, stride = 3, elements = Ptr 2 0\<rparr> 1 0 9
   = Some [0 \<mapsto> [1, 2, 9, 3, 4, 9], 1 \<mapsto> [1, 0, 0, 1], 2 \<mapsto> [0, 0, 0, 9, 0, 0]]"
    by (simp add: SetElement_def store_def)
  moreover have "GetElement [0 \<mapsto> replicate 4294967296 (1::int)]
     \<lparr>width = 134217728, height = 32, stride = 134217728, elements = Ptr 0 0\<rparr> 16 0 = Some 1"
    by (simp add: GetElement_def load_def)
  moreover have "GetElement [0 \<mapsto> replicate 4294967296 (1::int)]
     (GetSubMatrix \<lparr>width = 134217728, height = 32, stride = 134217728, elements = Ptr 0 0\<rparr> 1 0)
     0 0 = None"
    by (simp add: GetElement_def load_def GetSubMatrix_wraps)
  ultimately show ?thesis by simp
qed

section \<open>Lemmas on the host code\<close>

subsection \<open>What each call of the runtime leaves unchanged\<close>

lemma for_each_preserves:
  "for_each f ts s = Some s' \<Longrightarrow> P s \<Longrightarrow>
   (\<And>t s1 s2. t \<in> set ts \<Longrightarrow> P s1 \<Longrightarrow> f t s1 = Some s2 \<Longrightarrow> P s2) \<Longrightarrow> P s'"
proof (induction ts arbitrary: s)
  case Nil
  then show ?case by simp
next
  case (Cons t ts)
  from Cons.prems(1) obtain s1 where s1: "f t s = Some s1" "for_each f ts s1 = Some s'"
    by (auto split: option.splits)
  have "P s1" using Cons.prems(3)[of t s s1] Cons.prems(2) s1(1) by simp
  show ?case
  proof (rule Cons.IH[OF s1(2) \<open>P s1\<close>])
    fix u s2 s3 assume "u \<in> set ts" "P s2" "f u s2 = Some s3"
    then show "P s3" using Cons.prems(3)[of u s2 s3] by simp
  qed
qed

lemma store_agrees:
  "store M p i v = Some M' \<Longrightarrow> base p = base (elements C) \<Longrightarrow> agrees M M' C"
  by (auto simp: store_def agrees_def split: option.splits if_splits)

lemma general_block_agrees:
  assumes "general_block A B C d b M = Some M'"
  shows "agrees M M' C"
proof (rule for_each_preserves[where P = "\<lambda>M1. agrees M M1 C"])
  show "for_each (MatMulKernelGeneral A B C b d) (indices d) M = Some M'"
    using assms by (simp add: general_block_def)
  show "agrees M M C" by (rule agrees_refl)
next
  fix t M1 M2
  assume "agrees M M1 C" "MatMulKernelGeneral A B C b d t M1 = Some M2"
  then show "agrees M M2 C"
    using store_agrees[of M1 "elements C" _ _ M2 C] agrees_trans[of M M1 C M2]
    by (auto simp: MatMulKernelGeneral_def Let_def split: option.splits)
qed

lemma partitioned_block_agrees:
  assumes "MatMulKernelPartitioned A B C d b M = Some M'"
  shows "agrees M M' C"
proof -
  from assms obtain s where
    w: "for_each (write_Csub (GetSubMatrix C (int_of_unsigned (snd b)) (int_of_unsigned (fst b))) s) (indices d) M = Some M'"
    by (auto simp: MatMulKernelPartitioned_def Let_def split: option.splits)
  show ?thesis
  proof (rule for_each_preserves[where P = "\<lambda>M1. agrees M M1 C", OF w])
    show "agrees M M C" by (rule agrees_refl)
  next
    fix t M1 M2
    assume "agrees M M1 C" "write_Csub (GetSubMatrix C (int_of_unsigned (snd b)) (int_of_unsigned (fst b))) s t M1 = Some M2"
    then show "agrees M M2 C"
      using store_agrees[of M1 "elements (GetSubMatrix C (int_of_unsigned (snd b)) (int_of_unsigned (fst b)))" _ _ M2 C]
        agrees_trans[of M M1 C M2]
      by (auto simp: write_Csub_def Let_def GetSubMatrix_def)
  qed
qed

lemma run_grid_agrees:
  assumes "run_grid (kernel_code k A B C) g d M = Some M'"
  shows "agrees M M' C"
proof (rule for_each_preserves[where P = "\<lambda>M1. agrees M M1 C"])
  show "for_each (kernel_code k A B C d) (indices g) M = Some M'"
    using assms by (simp add: run_grid_def)
  show "agrees M M C" by (rule agrees_refl)
next
  fix b M1 M2
  assume "agrees M M1 C" "kernel_code k A B C d b M1 = Some M2"
  then show "agrees M M2 C"
    using general_block_agrees[of A B C d b M1 M2] partitioned_block_agrees[of A B C d b M1 M2]
      agrees_trans[of M M1 C M2]
    by (cases k) (auto simp: kernel_code_def)
qed

lemma cudaLaunch_frame:
  "host (snd (cudaLaunch k g d A B C m)) = host m"
  "next_handle (snd (cudaLaunch k g d A B C m)) = next_handle m"
  "available (snd (cudaLaunch k g d A B C m)) = available m"
  "residue (snd (cudaLaunch k g d A B C m)) = residue m"
  "trace (snd (cudaLaunch k g d A B C m)) = trace m @ [Launch k]"
  by (simp_all add: cudaLaunch_def Let_def split: option.splits)

lemma cudaLaunch_agrees:
  "agrees (device m) (device (snd (cudaLaunch k g d A B C m))) C"
  using run_grid_agrees[of k A B C g d "device m"]
  by (auto simp: cudaLaunch_def Let_def agrees_refl split: option.splits)

lemma cudaMemcpy_frame:
  "next_handle (snd (cudaMemcpy dst src n kind m)) = next_handle m"
  "available (snd (cudaMemcpy dst src n kind m)) = available m"
  "residue (snd (cudaMemcpy dst src n kind m)) = residue m"
  "trace (snd (cudaMemcpy dst src n kind m)) = trace m"
  by (simp_all add: cudaMemcpy_def split: option.splits cudaMemcpyKind.splits)

lemma cudaMemcpy_HostToDevice_host:
  "host (snd (cudaMemcpy dst src n cudaMemcpyHostToDevice m)) = host m"
  by (simp add: cudaMemcpy_def split: option.splits)

lemma cudaMemcpy_DeviceToHost_device:
  "device (snd (cudaMemcpy dst src n cudaMemcpyDeviceToHost m)) = device m"
  by (simp add: cudaMemcpy_def split: option.splits)

lemma write_cells_frame:
  "write_cells M p xs = Some M' \<Longrightarrow> h \<noteq> base p \<Longrightarrow> M' h = M h"
  by (auto simp: write_cells_def split: option.splits if_splits)

lemma write_cells_shape:
  "write_cells M p xs = Some M' \<Longrightarrow> map_option length (M' h) = map_option length (M h)"
  by (auto simp: write_cells_def split: option.splits if_splits)

lemma cudaMemcpy_DeviceToHost_host:
  "h \<noteq> base dst \<Longrightarrow> host (snd (cudaMemcpy dst src n cudaMemcpyDeviceToHost m)) h = host m h"
  using write_cells_frame[of "host m" dst _ _ h]
  by (auto simp: cudaMemcpy_def split: option.splits)

lemma cudaMemcpy_HostToDevice_device:
  "h \<noteq> base dst \<Longrightarrow> device (snd (cudaMemcpy dst src n cudaMemcpyHostToDevice m)) h = device m h"
  using write_cells_frame[of "device m" dst _ _ h]
  by (auto simp: cudaMemcpy_def split: option.splits)

lemma cudaMalloc_host: "host (snd (snd (cudaMalloc p n m))) = host m"
  by (simp add: cudaMalloc_def)

lemma cudaFree_host: "host (snd (cudaFree p m)) = host m"
  by (simp add: cudaFree_def split: option.splits)

lemma MatMul_unfold:
  "MatMul junk A B C general m0 =
     (let size_A = byte_size (width A) (height A);
          r1 = cudaMalloc (fst junk) size_A m0;
          d_A = \<lparr> width = width A, height = height A, stride = width A, elements = fst (snd r1) \<rparr>;
          m2 = snd (cudaMemcpy (elements d_A) (elements A) size_A cudaMemcpyHostToDevice (snd (snd r1)));
          size_B = byte_size (width B) (height B);
          r3 = cudaMalloc (fst (snd junk)) size_B m2;
          d_B = \<lparr> width = width B, height = height B, stride = width B, elements = fst (snd r3) \<rparr>;
          m4 = snd (cudaMemcpy (elements d_B) (elements B) size_B cudaMemcpyHostToDevice (snd (snd r3)));
          size_C = byte_size (width C) (height C);
          r5 = cudaMalloc (snd (snd junk)) size_C m4;
          d_C = \<lparr> width = width C, height = height C, stride = width C, elements = fst (snd r5) \<rparr>;
          dimGrid = (unsigned_of (width B) div 16, unsigned_of (height A) div 16);
          m6 = snd (cudaLaunch (if general then KernelGeneral else KernelPartitioned)
                      dimGrid (16, 16) d_A d_B d_C (snd (snd r5)));
          m7 = snd (cudaMemcpy (elements C) (elements d_C) size_C cudaMemcpyDeviceToHost m6);
          m8 = snd (cudaFree (elements d_A) m7);
          m9 = snd (cudaFree (elements d_B) m8)
      in snd (cudaFree (elements d_C) m9))"
  by (simp add: MatMul_def Let_def split_beta BLOCK_SIZE_def)

subsection \<open>Staging a matrix of the host\<close>

lemma byte_size_fits:
  assumes "0 \<le> w * h" "w * h \<le> INT_MAX"
  shows "byte_size w h = 4 * nat (w * h)" "byte_size w h div sizeof_float = nat (w * h)"
proof -
  have "int32 (w * h) = w * h" using assms by (simp add: int32_id is_int_def)
  moreover have "(w * h) mod 2 ^ 64 = w * h" using assms by (simp add: INT_MAX_def)
  ultimately have a: "int32 (w * h) mod 2 ^ 64 = w * h" by simp
  have "4 * nat (w * h) < 2 ^ 64" using assms by (simp add: INT_MAX_def)
  then have b: "(nat (w * h) * 4) mod 2 ^ 64 = nat (w * h) * 4" by simp
  show "byte_size w h = 4 * nat (w * h)"
    unfolding byte_size_def size_t_of_def sizeof_float_def a b by simp
  then show "byte_size w h div sizeof_float = nat (w * h)" by (simp add: sizeof_float_def)
qed

lemma host_matrix_buffer:
  assumes "host_matrix M A"
  obtains buf where "M (base (elements A)) = Some buf" "length buf = nat (width A * height A)"
    "byte_size (width A) (height A) = 4 * length buf"
    "byte_size (width A) (height A) div sizeof_float = length buf"
    "read_cells M (elements A) (length buf) = Some buf"
proof -
  from assms obtain buf where buf: "M (base (elements A)) = Some buf"
      "int (length buf) = width A * height A"
    and r: "0 \<le> width A * height A" "width A * height A \<le> INT_MAX" "offs (elements A) = 0"
    by (auto simp: host_matrix_def split: option.splits)
  have len: "length buf = nat (width A * height A)" using buf(2) by simp
  have rd: "read_cells M (elements A) (length buf) = Some buf"
    using buf(1) r(3) by (simp add: read_cells_def)
  have b1: "byte_size (width A) (height A) = 4 * length buf"
    using byte_size_fits(1)[OF r(1,2)] len by simp
  have b2: "byte_size (width A) (height A) div sizeof_float = length buf"
    using byte_size_fits(2)[OF r(1,2)] len by simp
  show ?thesis by (rule that[OF buf(1) len b1 b2 rd])
qed

lemma write_cells_whole:
  "M h = Some old \<Longrightarrow> length old = length xs \<Longrightarrow> write_cells M (Ptr h 0) xs = Some (M(h \<mapsto> xs))"
  by (simp add: write_cells_def)

lemma read_cells_whole:
  "M h = Some buf \<Longrightarrow> read_cells M (Ptr h 0) (length buf) = Some buf"
  by (simp add: read_cells_def)

lemma stage_in:
  assumes hm: "host_matrix (host m) A" and buf: "host m (base (elements A)) = Some buf"
    and cap: "byte_size (width A) (height A) \<le> available m"
  shows "cudaMalloc p (byte_size (width A) (height A)) m =
           (cudaSuccess, Ptr (next_handle m) 0,
            m\<lparr> device := (device m)(next_handle m \<mapsto> map (residue m) [0..<length buf]),
               next_handle := Suc (next_handle m),
               available := available m - byte_size (width A) (height A),
               trace := trace m @ [Allocated (next_handle m)] \<rparr>)"
    and "snd (cudaMemcpy (Ptr (next_handle m) 0) (elements A) (byte_size (width A) (height A))
                cudaMemcpyHostToDevice
                (m\<lparr> device := (device m)(next_handle m \<mapsto> map (residue m) [0..<length buf]),
                   next_handle := Suc (next_handle m),
                   available := available m - byte_size (width A) (height A),
                   trace := trace m @ [Allocated (next_handle m)] \<rparr>)) =
           m\<lparr> device := (device m)(next_handle m \<mapsto> buf),
              next_handle := Suc (next_handle m),
              available := available m - byte_size (width A) (height A),
              trace := trace m @ [Allocated (next_handle m)] \<rparr>"
proof -
  obtain buf' where b': "host m (base (elements A)) = Some buf'"
    "byte_size (width A) (height A) div sizeof_float = length buf'"
    "read_cells (host m) (elements A) (length buf') = Some buf'"
    by (rule host_matrix_buffer[OF hm])
  have "buf' = buf" using b'(1) buf by simp
  then have d: "byte_size (width A) (height A) div sizeof_float = length buf"
    and r: "read_cells (host m) (elements A) (length buf) = Some buf"
    using b' by simp_all
  show "cudaMalloc p (byte_size (width A) (height A)) m =
           (cudaSuccess, Ptr (next_handle m) 0,
            m\<lparr> device := (device m)(next_handle m \<mapsto> map (residue m) [0..<length buf]),
               next_handle := Suc (next_handle m),
               available := available m - byte_size (width A) (height A),
               trace := trace m @ [Allocated (next_handle m)] \<rparr>)"
    using cap d by (simp add: cudaMalloc_def)
  let ?m1 = "m\<lparr> device := (device m)(next_handle m \<mapsto> map (residue m) [0..<length buf]),
                   next_handle := Suc (next_handle m),
                   available := available m - byte_size (width A) (height A),
                   trace := trace m @ [Allocated (next_handle m)] \<rparr>"
  have w: "write_cells (device ?m1) (Ptr (next_handle m) 0) buf =
             Some ((device ?m1)(next_handle m \<mapsto> buf))"
    by (rule write_cells_whole[where old = "map (residue m) [0..<length buf]"]) simp_all
  show "snd (cudaMemcpy (Ptr (next_handle m) 0) (elements A) (byte_size (width A) (height A))
                cudaMemcpyHostToDevice ?m1) =
           m\<lparr> device := (device m)(next_handle m \<mapsto> buf),
              next_handle := Suc (next_handle m),
              available := available m - byte_size (width A) (height A),
              trace := trace m @ [Allocated (next_handle m)] \<rparr>"
    using r w d by (simp add: cudaMemcpy_def)
qed

subsection \<open>Full buffers\<close>

lemma valid_view_full:
  assumes "M hC = Some buf" "length buf = nat (w * h)" "0 \<le> w" "0 \<le> h"
    and "w \<le> INT_MAX" "h \<le> INT_MAX" "w * h \<le> INT_MAX"
  shows "valid_view M \<lparr> width = w, height = h, stride = w, elements = Ptr hC 0 \<rparr>"
proof -
  have "(h - 1) * w + w = w * h" by (simp add: algebra_simps)
  moreover have "0 \<le> w * h" using assms(3,4) by simp
  ultimately show ?thesis using assms by (simp add: valid_view_def mult.commute)
qed

lemma cell_transfer:
  "M1 (base (elements A1)) = M2 (base (elements A2)) \<Longrightarrow> offs (elements A1) = offs (elements A2) \<Longrightarrow>
   stride A1 = stride A2 \<Longrightarrow> cell M1 A1 r c = cell M2 A2 r c"
  unfolding cell_def GetElement_def load_def by (simp split: option.splits)

lemma dot_product_transfer:
  assumes "M1 (base (elements A1)) = M2 (base (elements A2))" "offs (elements A1) = offs (elements A2)"
    "stride A1 = stride A2"
    "M1 (base (elements B1)) = M2 (base (elements B2))" "offs (elements B1) = offs (elements B2)"
    "stride B1 = stride B2"
  shows "dot_product M1 A1 B1 r c n = dot_product M2 A2 B2 r c n"
proof -
  have "(\<lambda>acc e. acc + cell M1 A1 r e * cell M1 B1 e c) = (\<lambda>acc e. acc + cell M2 A2 r e * cell M2 B2 e c)"
    using cell_transfer[of M1 A1 M2 A2] cell_transfer[of M1 B1 M2 B2] assms by simp
  then show ?thesis by (simp add: dot_product_def)
qed

lemma full_buffer_eq:
  assumes buf: "M hC = Some buf" and len: "length buf = nat (w * h)" and nn: "0 \<le> w" "0 \<le> h"
    and cells: "\<And>r c. in_view \<lparr> width = w, height = h, stride = w, elements = Ptr hC 0 \<rparr> r c \<Longrightarrow>
              GetElement M \<lparr> width = w, height = h, stride = w, elements = Ptr hC 0 \<rparr> r c = Some (f r c)"
  shows "buf = map (\<lambda>i. f (int i div w) (int i mod w)) [0..<nat (w * h)]"
proof (rule nth_equalityI)
  show "length buf = length (map (\<lambda>i. f (int i div w) (int i mod w)) [0..<nat (w * h)])"
    using len by simp
next
  fix i assume "i < length buf"
  then have i: "int i < w * h" using len by linarith
  have wpos: "0 < w"
  proof (rule ccontr)
    assume "\<not> 0 < w" then have "w = 0" using nn by simp
    then show False using i by simp
  qed
  let ?r = "int i div w" and ?c = "int i mod w"
  have c: "0 \<le> ?c" "?c < w" using wpos by simp_all
  have r0: "0 \<le> ?r" using wpos by (simp add: pos_imp_zdiv_nonneg_iff)
  have eq: "?r * w + ?c = int i" by simp
  have rh: "?r < h"
  proof (rule ccontr)
    assume "\<not> ?r < h"
    then have "h * w \<le> ?r * w" using wpos by (intro mult_right_mono) auto
    moreover have "?r * w \<le> int i" using eq c(1) by linarith
    ultimately have "h * w \<le> int i" by linarith
    then show False using i by (simp add: mult.commute)
  qed
  have "in_view \<lparr> width = w, height = h, stride = w, elements = Ptr hC 0 \<rparr> ?r ?c"
    using c r0 rh by (simp add: in_view_def)
  from cells[OF this] have "load M (Ptr hC 0) (?r * w + ?c) = Some (f ?r ?c)"
    by (simp add: GetElement_def)
  then have "buf ! i = f ?r ?c"
    unfolding eq using buf \<open>i < length buf\<close> by (simp add: load_def)
  then show "buf ! i = map (\<lambda>i. f (int i div w) (int i mod w)) [0..<nat (w * h)] ! i"
    using \<open>i < length buf\<close> len by simp
qed

subsection \<open>The launch on staged matrices\<close>

lemma unsigned_of_fits: "0 \<le> w \<Longrightarrow> w \<le> INT_MAX \<Longrightarrow> unsigned_of w = nat w"
  by (simp add: unsigned_of_def INT_MAX_def)

lemma launch_result:
  fixes m :: "('a::{zero,plus,times}) machine"
  assumes bufs: "device m a = Some bufA" "device m b = Some bufB" "device m c = Some bufC"
    and lens: "length bufA = nat (width A * height A)" "length bufB = nat (width B * height B)"
      "length bufC = nat (width C * height C)"
    and nn: "0 \<le> width A" "0 \<le> height A" "0 \<le> width B" "0 \<le> height B"
      "0 \<le> width C" "0 \<le> height C"
    and rng: "width B \<le> INT_MAX" "height A \<le> INT_MAX"
    and inv: "dimension_invariant A B C"
    and ne: "a \<noteq> c" "b \<noteq> c"
    and fit: "width A \<le> INT_MAX" "width A * height A \<le> INT_MAX"
      "width B * height B \<le> INT_MAX" "width C * height C \<le> INT_MAX"
  shows "device (snd (cudaLaunch k (unsigned_of (width B) div 16, unsigned_of (height A) div 16) (16, 16)
            \<lparr> width = width A, height = height A, stride = width A, elements = Ptr a 0 \<rparr>
            \<lparr> width = width B, height = height B, stride = width B, elements = Ptr b 0 \<rparr>
            \<lparr> width = width C, height = height C, stride = width C, elements = Ptr c 0 \<rparr> m)) =
         (device m)(c \<mapsto> product_buffer A B bufA bufB)"
proof -
  let ?dA = "\<lparr> width = width A, height = height A, stride = width A, elements = Ptr a 0 \<rparr>"
  let ?dB = "\<lparr> width = width B, height = height B, stride = width B, elements = Ptr b 0 \<rparr>"
  let ?dC = "\<lparr> width = width C, height = height C, stride = width C, elements = Ptr c 0 \<rparr>"
  let ?g = "(nat (width B div 16), nat (height A div 16))"
  let ?f = "\<lambda>r c. dot_product (device m) ?dA ?dB r c (width A)"
  from inv have dims: "16 dvd width B" "16 dvd height A" "height A = height C" "width B = width C"
    unfolding dimension_invariant_def BLOCK_SIZE_def by blast+
  from inv have dimh: "width A = height B"
    unfolding dimension_invariant_def by blast
  have fits: "height B \<le> INT_MAX" "width C \<le> INT_MAX" "height C \<le> INT_MAX"
    using fit rng dims dimh by simp_all
  have grid: "(unsigned_of (width B) div 16, unsigned_of (height A) div 16) = ?g"
    using nn rng by (simp add: unsigned_of_fits nat_div_distrib)
  have vA: "valid_view (device m) ?dA"
    by (rule valid_view_full[where buf = bufA]) (simp_all add: bufs lens nn rng fit fits)
  have vB: "valid_view (device m) ?dB"
    by (rule valid_view_full[where buf = bufB]) (simp_all add: bufs lens nn rng fit fits)
  have vC: "valid_view (device m) ?dC"
    by (rule valid_view_full[where buf = bufC]) (simp_all add: bufs lens nn rng fit fits)
  have dinv: "dimension_invariant ?dA ?dB ?dC"
    using inv by (auto simp: dimension_invariant_def)
  have pb: "product_buffer A B bufA bufB =
      map (\<lambda>i. ?f (int i div width C) (int i mod width C)) [0..<nat (width C * height C)]"
  proof -
    have "dot_product (device m) ?dA ?dB r c' (width A) =
          dot_product [0 \<mapsto> bufA, 1 \<mapsto> bufB]
            \<lparr> width = width A, height = height A, stride = width A, elements = Ptr 0 0 \<rparr>
            \<lparr> width = width B, height = height B, stride = width B, elements = Ptr 1 0 \<rparr>
            r c' (width A)" for r c'
      by (rule dot_product_transfer) (simp_all add: bufs)
    then show ?thesis using dims by (simp add: product_buffer_def)
  qed
  show ?thesis
  proof (cases "fst ?g = 0 \<or> snd ?g = 0")
    case True
    then have "width B div 16 \<le> 0 \<or> height A div 16 \<le> 0" by auto
    then have "width B = 0 \<or> height A = 0" using dims nn by auto
    then have z: "width C * height C = 0" using dims by auto
    have "length bufC = 0" unfolding lens(3) z by simp
    then have "bufC = []" by simp
    moreover have "product_buffer A B bufA bufB = []" unfolding pb z by simp
    ultimately have "(device m)(c \<mapsto> product_buffer A B bufA bufB) = device m"
      using bufs(3) by (simp add: fun_upd_idem)
    moreover have "device (snd (cudaLaunch k ?g (16, 16) ?dA ?dB ?dC m)) = device m"
      using True by (simp add: cudaLaunch_def Let_def)
    ultimately show ?thesis unfolding grid by simp
  next
    case False
    have "\<exists>M'. run_grid (kernel_code k ?dA ?dB ?dC) ?g (16, 16) (device m) = Some M' \<and>
            agrees (device m) M' ?dC \<and>
            (\<forall>r c'. in_view ?dC r c' \<longrightarrow> GetElement M' ?dC r c' = Some (?f r c'))"
    proof (cases k)
      case KernelGeneral
      show ?thesis
        using general_grid[OF vA vB vC _ _ _ dinv] ne
        by (simp add: KernelGeneral kernel_code_def)
    next
      case KernelPartitioned
      show ?thesis
        using partitioned_grid[OF vA vB vC dinv] ne
        by (simp add: KernelPartitioned kernel_code_def)
    qed
    then obtain M' where run: "run_grid (kernel_code k ?dA ?dB ?dC) ?g (16, 16) (device m) = Some M'"
      and ag: "agrees (device m) M' ?dC"
      and cells: "\<And>r c'. in_view ?dC r c' \<Longrightarrow> GetElement M' ?dC r c' = Some (?f r c')"
      by blast
    from ag bufs(3) obtain bufC' where b': "M' c = Some bufC'" "length bufC' = length bufC"
      by (auto simp: agrees_def)
    have "bufC' = map (\<lambda>i. ?f (int i div width C) (int i mod width C)) [0..<nat (width C * height C)]"
    proof (rule full_buffer_eq[where M = M' and hC = c])
      show "M' c = Some bufC'" by (rule b'(1))
      show "length bufC' = nat (width C * height C)" using b'(2) lens(3) by simp
      show "0 \<le> width C" "0 \<le> height C" by (rule nn)+
      show "\<And>r c'. in_view ?dC r c' \<Longrightarrow> GetElement M' ?dC r c' = Some (?f r c')" by (rule cells)
    qed
    then have "M' c = Some (product_buffer A B bufA bufB)" using b'(1) pb by simp
    moreover have "M' h = device m h" if "h \<noteq> c" for h
      using ag that by (simp add: agrees_def)
    ultimately have "M' = (device m)(c \<mapsto> product_buffer A B bufA bufB)"
      by (intro ext) simp
    moreover have "device (snd (cudaLaunch k ?g (16, 16) ?dA ?dB ?dC m)) = M'"
      using False run by (simp add: cudaLaunch_def Let_def)
    ultimately show ?thesis unfolding grid by simp
  qed
qed

subsection \<open>Copying back and releasing\<close>

lemma cudaLaunch_snd:
  "snd (cudaLaunch k g d A B C m) =
     m\<lparr> device := device (snd (cudaLaunch k g d A B C m)), trace := trace m @ [Launch k] \<rparr>"
  by (simp add: cudaLaunch_def Let_def split: option.splits)

lemma cudaFree_live:
  "device m h = Some buf \<Longrightarrow>
   snd (cudaFree (Ptr h 0) m) =
     m\<lparr> device := (device m)(h := None),
        available := available m + length buf * sizeof_float,
        trace := trace m @ [Released h] \<rparr>"
  by (simp add: cudaFree_def)

lemma stage_out:
  assumes hm: "host_matrix (host m) C" and dv: "device m h = Some buf"
    and len: "length buf = nat (width C * height C)"
  shows "snd (cudaMemcpy (elements C) (Ptr h 0) (byte_size (width C) (height C))
                cudaMemcpyDeviceToHost m) =
         m\<lparr> host := (host m)(base (elements C) \<mapsto> buf) \<rparr>"
proof -
  obtain old where old: "host m (base (elements C)) = Some old"
    "length old = nat (width C * height C)"
    "byte_size (width C) (height C) div sizeof_float = length old"
    by (rule host_matrix_buffer[OF hm])
  have p: "elements C = Ptr (base (elements C)) 0"
    using hm by (cases "elements C") (simp add: host_matrix_def)
  have r: "read_cells (device m) (Ptr h 0) (length buf) = Some buf"
    by (rule read_cells_whole) (rule dv)
  have "write_cells (host m) (Ptr (base (elements C)) 0) buf = Some ((host m)(base (elements C) \<mapsto> buf))"
    by (rule write_cells_whole[where old = old]) (simp_all add: old len)
  then have w: "write_cells (host m) (elements C) buf = Some ((host m)(base (elements C) \<mapsto> buf))"
    using p by simp
  have n: "byte_size (width C) (height C) div sizeof_float = length buf"
    using old(2,3) len by simp
  show ?thesis by (simp add: cudaMemcpy_def n r w)
qed

subsection \<open>A call whose allocations succeed, on well-formed arguments\<close>

lemma host_matrix_dims:
  assumes "host_matrix M A"
  shows "0 \<le> width A" "width A \<le> INT_MAX" "0 \<le> height A" "height A \<le> INT_MAX"
  using assms by (simp_all add: host_matrix_def)

lemma MatMul_success:
  fixes m :: "('a::{zero,plus,times}) machine"
  assumes hA: "host_matrix (host m) A" and hB: "host_matrix (host m) B"
    and hC: "host_matrix (host m) C"
    and inv: "dimension_invariant A B C"
    and cap: "byte_size (width A) (height A) + byte_size (width B) (height B) +
              byte_size (width C) (height C) \<le> available m"
    and bufA: "host m (base (elements A)) = Some bufA"
    and bufB: "host m (base (elements B)) = Some bufB"
  shows "MatMul junk A B C general m =
           m\<lparr> host := (host m)(base (elements C) \<mapsto> product_buffer A B bufA bufB),
              device := (device m)(next_handle m := None, Suc (next_handle m) := None,
                                   Suc (Suc (next_handle m)) := None),
              next_handle := Suc (Suc (Suc (next_handle m))),
              trace := trace m @
                [Allocated (next_handle m), Allocated (Suc (next_handle m)),
                 Allocated (Suc (Suc (next_handle m))),
                 Launch (if general then KernelGeneral else KernelPartitioned),
                 Released (next_handle m), Released (Suc (next_handle m)),
                 Released (Suc (Suc (next_handle m)))] \<rparr>"
proof -
  let ?n = "next_handle m"
  let ?sA = "byte_size (width A) (height A)"
  let ?sB = "byte_size (width B) (height B)"
  let ?sC = "byte_size (width C) (height C)"
  let ?k = "if general then KernelGeneral else KernelPartitioned"
  let ?P = "product_buffer A B bufA bufB"
  obtain bufC where bufC: "host m (base (elements C)) = Some bufC"
    "length bufC = nat (width C * height C)" "?sC = 4 * length bufC"
    "?sC div sizeof_float = length bufC"
    by (rule host_matrix_buffer[OF hC])
  obtain bA where bA: "host m (base (elements A)) = Some bA"
    "length bA = nat (width A * height A)" "?sA = 4 * length bA"
    by (rule host_matrix_buffer[OF hA])
  obtain bB where bB: "host m (base (elements B)) = Some bB"
    "length bB = nat (width B * height B)" "?sB = 4 * length bB"
    by (rule host_matrix_buffer[OF hB])
  have lA: "length bufA = nat (width A * height A)" "?sA = 4 * length bufA"
    using bA bufA by simp_all
  have lB: "length bufB = nat (width B * height B)" "?sB = 4 * length bufB"
    using bB bufB by simp_all
  from inv have dims: "height A = height C" "width B = width C"
    unfolding dimension_invariant_def by blast+
  have lP: "length ?P = length bufC" using bufC(2) dims by (simp add: product_buffer_def)
  \<comment> \<open>staging of \<open>A\<close>\<close>
  let ?m1 = "m\<lparr> device := (device m)(?n \<mapsto> map (residue m) [0..<length bufA]),
                next_handle := Suc ?n, available := available m - ?sA,
                trace := trace m @ [Allocated ?n] \<rparr>"
  let ?m2 = "m\<lparr> device := (device m)(?n \<mapsto> bufA),
                next_handle := Suc ?n, available := available m - ?sA,
                trace := trace m @ [Allocated ?n] \<rparr>"
  have capA: "?sA \<le> available m" using cap by simp
  have r1: "cudaMalloc (fst junk) ?sA m = (cudaSuccess, Ptr ?n 0, ?m1)"
    by (rule stage_in(1)[OF hA bufA capA])
  have s2: "snd (cudaMemcpy (Ptr ?n 0) (elements A) ?sA cudaMemcpyHostToDevice ?m1) = ?m2"
    by (rule stage_in(2)[OF hA bufA capA])
  \<comment> \<open>staging of \<open>B\<close>\<close>
  let ?m3 = "m\<lparr> device := (device m)(?n \<mapsto> bufA, Suc ?n \<mapsto> map (residue m) [0..<length bufB]),
                next_handle := Suc (Suc ?n), available := available m - ?sA - ?sB,
                trace := trace m @ [Allocated ?n, Allocated (Suc ?n)] \<rparr>"
  let ?m4 = "m\<lparr> device := (device m)(?n \<mapsto> bufA, Suc ?n \<mapsto> bufB),
                next_handle := Suc (Suc ?n), available := available m - ?sA - ?sB,
                trace := trace m @ [Allocated ?n, Allocated (Suc ?n)] \<rparr>"
  have hB2: "host_matrix (host ?m2) B" "host ?m2 (base (elements B)) = Some bufB"
    "?sB \<le> available ?m2"
    using hB bufB cap by simp_all
  have r3: "cudaMalloc (fst (snd junk)) ?sB ?m2 = (cudaSuccess, Ptr (Suc ?n) 0, ?m3)"
    using stage_in(1)[OF hB2, of "fst (snd junk)"] by simp
  have s4: "snd (cudaMemcpy (Ptr (Suc ?n) 0) (elements B) ?sB cudaMemcpyHostToDevice ?m3) = ?m4"
    using stage_in(2)[OF hB2] by simp
  \<comment> \<open>allocation of \<open>C\<close>\<close>
  let ?m5 = "m\<lparr> device := (device m)(?n \<mapsto> bufA, Suc ?n \<mapsto> bufB,
                                    Suc (Suc ?n) \<mapsto> map (residue m) [0..<length bufC]),
                next_handle := Suc (Suc (Suc ?n)), available := available m - ?sA - ?sB - ?sC,
                trace := trace m @ [Allocated ?n, Allocated (Suc ?n), Allocated (Suc (Suc ?n))] \<rparr>"
  have r5: "cudaMalloc (snd (snd junk)) ?sC ?m4 = (cudaSuccess, Ptr (Suc (Suc ?n)) 0, ?m5)"
    using cap bufC(4) by (simp add: cudaMalloc_def)
  \<comment> \<open>the launch\<close>
  let ?dA = "\<lparr> width = width A, height = height A, stride = width A, elements = Ptr ?n 0 \<rparr>"
  let ?dB = "\<lparr> width = width B, height = height B, stride = width B, elements = Ptr (Suc ?n) 0 \<rparr>"
  let ?dC = "\<lparr> width = width C, height = height C, stride = width C, elements = Ptr (Suc (Suc ?n)) 0 \<rparr>"
  let ?g = "(unsigned_of (width B) div 16, unsigned_of (height A) div 16)"
  let ?m6 = "m\<lparr> device := (device m)(?n \<mapsto> bufA, Suc ?n \<mapsto> bufB, Suc (Suc ?n) \<mapsto> ?P),
                next_handle := Suc (Suc (Suc ?n)), available := available m - ?sA - ?sB - ?sC,
                trace := trace m @ [Allocated ?n, Allocated (Suc ?n), Allocated (Suc (Suc ?n)),
                                    Launch ?k] \<rparr>"
  have d6: "device (snd (cudaLaunch ?k ?g (16, 16) ?dA ?dB ?dC ?m5)) =
             (device ?m5)(Suc (Suc ?n) \<mapsto> ?P)"
  proof (rule launch_result[where bufC = "map (residue m) [0..<length bufC]"])
    show "device ?m5 ?n = Some bufA" "device ?m5 (Suc ?n) = Some bufB"
      "device ?m5 (Suc (Suc ?n)) = Some (map (residue m) [0..<length bufC])" by simp_all
    show "length bufA = nat (width A * height A)" "length bufB = nat (width B * height B)"
      "length (map (residue m) [0..<length bufC]) = nat (width C * height C)"
      using lA lB bufC by simp_all
    show "0 \<le> width A" "0 \<le> height A" "0 \<le> width B" "0 \<le> height B" "0 \<le> width C" "0 \<le> height C"
      "width B \<le> INT_MAX" "height A \<le> INT_MAX"
      using host_matrix_dims[OF hA] host_matrix_dims[OF hB] host_matrix_dims[OF hC] by simp_all
    show "dimension_invariant A B C" by (rule inv)
    show "?n \<noteq> Suc (Suc ?n)" "Suc ?n \<noteq> Suc (Suc ?n)" by simp_all
    show "width A \<le> INT_MAX" "width A * height A \<le> INT_MAX"
      "width B * height B \<le> INT_MAX" "width C * height C \<le> INT_MAX"
      using hA hB hC by (simp_all add: host_matrix_def)
  qed
  have "snd (cudaLaunch ?k ?g (16, 16) ?dA ?dB ?dC ?m5) =
          ?m5\<lparr> device := device (snd (cudaLaunch ?k ?g (16, 16) ?dA ?dB ?dC ?m5)),
               trace := trace ?m5 @ [Launch ?k] \<rparr>"
    by (rule cudaLaunch_snd)
  also have "\<dots> = ?m5\<lparr> device := (device ?m5)(Suc (Suc ?n) \<mapsto> ?P),
                        trace := trace ?m5 @ [Launch ?k] \<rparr>"
    by (simp only: d6)
  also have "\<dots> = ?m6" by simp
  finally have s6: "snd (cudaLaunch ?k ?g (16, 16) ?dA ?dB ?dC ?m5) = ?m6" .
  \<comment> \<open>the copy back and the releases\<close>
  let ?m7 = "?m6\<lparr> host := (host m)(base (elements C) \<mapsto> ?P) \<rparr>"
  have s7: "snd (cudaMemcpy (elements C) (Ptr (Suc (Suc ?n)) 0) ?sC cudaMemcpyDeviceToHost ?m6) = ?m7"
    using stage_out[of ?m6 C "Suc (Suc ?n)" ?P] hC lP bufC(2) by simp
  let ?D = "(device m)(?n \<mapsto> bufA, Suc ?n \<mapsto> bufB, Suc (Suc ?n) \<mapsto> ?P)"
  let ?m8 = "?m7\<lparr> device := ?D(?n := None),
                  available := available m - ?sA - ?sB - ?sC + length bufA * sizeof_float,
                  trace := trace ?m7 @ [Released ?n] \<rparr>"
  have s8: "snd (cudaFree (Ptr ?n 0) ?m7) = ?m8"
    using cudaFree_live[of ?m7 ?n bufA] by simp
  let ?m9 = "?m8\<lparr> device := ?D(?n := None, Suc ?n := None),
                  available := available m - ?sA - ?sB - ?sC + length bufA * sizeof_float
                                 + length bufB * sizeof_float,
                  trace := trace ?m8 @ [Released (Suc ?n)] \<rparr>"
  have s9: "snd (cudaFree (Ptr (Suc ?n) 0) ?m8) = ?m9"
    using cudaFree_live[of ?m8 "Suc ?n" bufB] by simp
  let ?m10 = "?m9\<lparr> device := ?D(?n := None, Suc ?n := None, Suc (Suc ?n) := None),
                  available := available m - ?sA - ?sB - ?sC + length bufA * sizeof_float
                                 + length bufB * sizeof_float + length ?P * sizeof_float,
                  trace := trace ?m9 @ [Released (Suc (Suc ?n))] \<rparr>"
  have s10: "snd (cudaFree (Ptr (Suc (Suc ?n)) 0) ?m9) = ?m10"
    using cudaFree_live[of ?m9 "Suc (Suc ?n)" ?P] by simp
  have av: "available m - ?sA - ?sB - ?sC + length bufA * sizeof_float
              + length bufB * sizeof_float + length ?P * sizeof_float = available m"
    using cap lA(2) lB(2) bufC(3) lP by (simp add: sizeof_float_def)
  have "MatMul junk A B C general m = ?m10"
    unfolding MatMul_unfold Let_def r1 fst_conv snd_conv Matrix.simps s2 r3 s4 r5 s6 s7 s8 s9 s10
    by (rule refl)
  moreover have "?D(?n := None, Suc ?n := None, Suc (Suc ?n) := None) =
      (device m)(?n := None, Suc ?n := None, Suc (Suc ?n) := None)"
    by (rule ext) simp
  ultimately show ?thesis unfolding av by simp
qed

subsection \<open>The calls of the runtime on any argument\<close>

lemma cudaMemcpy_HostToDevice_form:
  assumes "device m h = Some buf"
  shows "\<exists>buf'. length buf' = length buf \<and>
           snd (cudaMemcpy (Ptr h 0) src n cudaMemcpyHostToDevice m) = m\<lparr> device := (device m)(h \<mapsto> buf') \<rparr>"
proof (cases "read_cells (host m) src (n div sizeof_float)")
  case None
  then have "snd (cudaMemcpy (Ptr h 0) src n cudaMemcpyHostToDevice m) = m\<lparr> device := (device m)(h \<mapsto> buf) \<rparr>"
    using assms by (simp add: cudaMemcpy_def fun_upd_idem)
  then show ?thesis by blast
next
  case (Some xs)
  show ?thesis
  proof (cases "length xs \<le> length buf")
    case True
    then have "snd (cudaMemcpy (Ptr h 0) src n cudaMemcpyHostToDevice m) =
                 m\<lparr> device := (device m)(h \<mapsto> xs @ drop (length xs) buf) \<rparr>"
      using assms Some by (simp add: cudaMemcpy_def write_cells_def)
    moreover have "length (xs @ drop (length xs) buf) = length buf" using True by simp
    ultimately show ?thesis by blast
  next
    case False
    then have "snd (cudaMemcpy (Ptr h 0) src n cudaMemcpyHostToDevice m) = m\<lparr> device := (device m)(h \<mapsto> buf) \<rparr>"
      using assms Some by (simp add: cudaMemcpy_def write_cells_def fun_upd_idem)
    then show ?thesis by blast
  qed
qed

lemma cudaLaunch_form:
  assumes "device m c = Some buf" "base (elements C) = c"
  shows "\<exists>buf'. length buf' = length buf \<and>
           snd (cudaLaunch k g d A B C m) =
             m\<lparr> device := (device m)(c \<mapsto> buf'), trace := trace m @ [Launch k] \<rparr>"
proof -
  let ?D = "device (snd (cudaLaunch k g d A B C m))"
  have ag: "agrees (device m) ?D C" by (rule cudaLaunch_agrees)
  then obtain buf' where b': "?D c = Some buf'" "length buf' = length buf"
    using assms by (auto simp: agrees_def)
  have "?D = (device m)(c \<mapsto> buf')"
    using ag b'(1) assms(2) by (intro ext) (simp add: agrees_def)
  then have "snd (cudaLaunch k g d A B C m) =
             m\<lparr> device := (device m)(c \<mapsto> buf'), trace := trace m @ [Launch k] \<rparr>"
    using cudaLaunch_snd[of k g d A B C m] by simp
  then show ?thesis using b'(2) by blast
qed

lemma cudaMemcpy_DeviceToHost_form:
  "snd (cudaMemcpy dst src n cudaMemcpyDeviceToHost m) =
     m\<lparr> host := host (snd (cudaMemcpy dst src n cudaMemcpyDeviceToHost m)) \<rparr>"
  by (simp add: cudaMemcpy_def split: option.splits)

lemma byte_size_div: "byte_size w h div sizeof_float * sizeof_float = byte_size w h"
proof -
  have "(4::nat) dvd 2 ^ 64" by simp
  then have "4 dvd byte_size w h"
    unfolding byte_size_def sizeof_float_def by (simp add: dvd_mod)
  then show ?thesis by (simp add: sizeof_float_def)
qed

subsection \<open>A call whose allocations succeed, on any argument\<close>

lemma MatMul_released:
  fixes m :: "('a::{zero,plus,times}) machine"
  assumes cap: "byte_size (width A) (height A) + byte_size (width B) (height B) +
              byte_size (width C) (height C) \<le> available m"
  shows "MatMul junk A B C general m =
           m\<lparr> host := host (MatMul junk A B C general m),
              device := (device m)(next_handle m := None, Suc (next_handle m) := None,
                                   Suc (Suc (next_handle m)) := None),
              next_handle := Suc (Suc (Suc (next_handle m))),
              trace := trace m @
                [Allocated (next_handle m), Allocated (Suc (next_handle m)),
                 Allocated (Suc (Suc (next_handle m))),
                 Launch (if general then KernelGeneral else KernelPartitioned),
                 Released (next_handle m), Released (Suc (next_handle m)),
                 Released (Suc (Suc (next_handle m)))] \<rparr>"
proof -
  let ?n = "next_handle m"
  let ?sA = "byte_size (width A) (height A)"
  let ?sB = "byte_size (width B) (height B)"
  let ?sC = "byte_size (width C) (height C)"
  let ?k = "if general then KernelGeneral else KernelPartitioned"
  let ?rA = "map (residue m) [0..<?sA div sizeof_float]"
  let ?rB = "map (residue m) [0..<?sB div sizeof_float]"
  let ?rC = "map (residue m) [0..<?sC div sizeof_float]"
  \<comment> \<open>staging of \<open>A\<close>\<close>
  let ?m1 = "m\<lparr> device := (device m)(?n \<mapsto> ?rA),
                next_handle := Suc ?n, available := available m - ?sA,
                trace := trace m @ [Allocated ?n] \<rparr>"
  have r1: "cudaMalloc (fst junk) ?sA m = (cudaSuccess, Ptr ?n 0, ?m1)"
    using cap by (simp add: cudaMalloc_def)
  obtain bA where bA: "length bA = ?sA div sizeof_float"
    and s2: "snd (cudaMemcpy (Ptr ?n 0) (elements A) ?sA cudaMemcpyHostToDevice ?m1) =
             ?m1\<lparr> device := (device ?m1)(?n \<mapsto> bA) \<rparr>"
    using cudaMemcpy_HostToDevice_form[of ?m1 ?n ?rA "elements A" ?sA] by auto
  \<comment> \<open>staging of \<open>B\<close>\<close>
  let ?m2 = "?m1\<lparr> device := (device ?m1)(?n \<mapsto> bA) \<rparr>"
  let ?m3 = "?m2\<lparr> device := (device ?m2)(Suc ?n \<mapsto> ?rB),
                next_handle := Suc (Suc ?n), available := available m - ?sA - ?sB,
                trace := trace m @ [Allocated ?n, Allocated (Suc ?n)] \<rparr>"
  have r3: "cudaMalloc (fst (snd junk)) ?sB ?m2 = (cudaSuccess, Ptr (Suc ?n) 0, ?m3)"
    using cap by (simp add: cudaMalloc_def)
  obtain bB where bB: "length bB = ?sB div sizeof_float"
    and s4: "snd (cudaMemcpy (Ptr (Suc ?n) 0) (elements B) ?sB cudaMemcpyHostToDevice ?m3) =
             ?m3\<lparr> device := (device ?m3)(Suc ?n \<mapsto> bB) \<rparr>"
    using cudaMemcpy_HostToDevice_form[of ?m3 "Suc ?n" ?rB "elements B" ?sB] by auto
  \<comment> \<open>allocation of \<open>C\<close>\<close>
  let ?m4 = "?m3\<lparr> device := (device ?m3)(Suc ?n \<mapsto> bB) \<rparr>"
  let ?m5 = "?m4\<lparr> device := (device ?m4)(Suc (Suc ?n) \<mapsto> ?rC),
                next_handle := Suc (Suc (Suc ?n)), available := available m - ?sA - ?sB - ?sC,
                trace := trace m @ [Allocated ?n, Allocated (Suc ?n), Allocated (Suc (Suc ?n))] \<rparr>"
  have r5: "cudaMalloc (snd (snd junk)) ?sC ?m4 = (cudaSuccess, Ptr (Suc (Suc ?n)) 0, ?m5)"
    using cap by (simp add: cudaMalloc_def)
  \<comment> \<open>the launch\<close>
  let ?dA = "\<lparr> width = width A, height = height A, stride = width A, elements = Ptr ?n 0 \<rparr>"
  let ?dB = "\<lparr> width = width B, height = height B, stride = width B, elements = Ptr (Suc ?n) 0 \<rparr>"
  let ?dC = "\<lparr> width = width C, height = height C, stride = width C, elements = Ptr (Suc (Suc ?n)) 0 \<rparr>"
  let ?g = "(unsigned_of (width B) div 16, unsigned_of (height A) div 16)"
  obtain bC where bC: "length bC = ?sC div sizeof_float"
    and s6: "snd (cudaLaunch ?k ?g (16, 16) ?dA ?dB ?dC ?m5) =
             ?m5\<lparr> device := (device ?m5)(Suc (Suc ?n) \<mapsto> bC), trace := trace ?m5 @ [Launch ?k] \<rparr>"
    using cudaLaunch_form[of ?m5 "Suc (Suc ?n)" ?rC ?dC ?k ?g "(16, 16)" ?dA ?dB] by auto
  \<comment> \<open>the copy back and the releases\<close>
  let ?D = "(device m)(?n \<mapsto> bA, Suc ?n \<mapsto> bB, Suc (Suc ?n) \<mapsto> bC)"
  let ?t6 = "trace m @ [Allocated ?n, Allocated (Suc ?n), Allocated (Suc (Suc ?n)), Launch ?k]"
  let ?a6 = "available m - ?sA - ?sB - ?sC"
  let ?m6 = "m\<lparr> device := ?D, next_handle := Suc (Suc (Suc ?n)), available := ?a6, trace := ?t6 \<rparr>"
  have s6': "snd (cudaLaunch ?k ?g (16, 16) ?dA ?dB ?dC ?m5) = ?m6"
    unfolding s6 by simp
  define H where "H = host (snd (cudaMemcpy (elements C) (Ptr (Suc (Suc ?n)) 0) ?sC cudaMemcpyDeviceToHost ?m6))"
  let ?m7 = "m\<lparr> host := H, device := ?D, next_handle := Suc (Suc (Suc ?n)), available := ?a6,
                 trace := ?t6 \<rparr>"
  have s7: "snd (cudaMemcpy (elements C) (Ptr (Suc (Suc ?n)) 0) ?sC cudaMemcpyDeviceToHost ?m6) = ?m7"
    using cudaMemcpy_DeviceToHost_form[of "elements C" "Ptr (Suc (Suc ?n)) 0" ?sC ?m6]
    unfolding H_def[symmetric] by simp
  let ?m8 = "m\<lparr> host := H, device := ?D(?n := None), next_handle := Suc (Suc (Suc ?n)),
                 available := ?a6 + length bA * sizeof_float,
                 trace := ?t6 @ [Released ?n] \<rparr>"
  have s8: "snd (cudaFree (Ptr ?n 0) ?m7) = ?m8"
    using cudaFree_live[of ?m7 ?n bA] by simp
  let ?m9 = "m\<lparr> host := H, device := ?D(?n := None, Suc ?n := None), next_handle := Suc (Suc (Suc ?n)),
                 available := ?a6 + length bA * sizeof_float + length bB * sizeof_float,
                 trace := ?t6 @ [Released ?n, Released (Suc ?n)] \<rparr>"
  have s9: "snd (cudaFree (Ptr (Suc ?n) 0) ?m8) = ?m9"
    using cudaFree_live[of ?m8 "Suc ?n" bB] by simp
  let ?m10 = "m\<lparr> host := H, device := ?D(?n := None, Suc ?n := None, Suc (Suc ?n) := None),
                 next_handle := Suc (Suc (Suc ?n)),
                 available := ?a6 + length bA * sizeof_float + length bB * sizeof_float
                               + length bC * sizeof_float,
                 trace := ?t6 @ [Released ?n, Released (Suc ?n), Released (Suc (Suc ?n))] \<rparr>"
  have s10: "snd (cudaFree (Ptr (Suc (Suc ?n)) 0) ?m9) = ?m10"
    using cudaFree_live[of ?m9 "Suc (Suc ?n)" bC] by simp
  have av: "?a6 + length bA * sizeof_float + length bB * sizeof_float + length bC * sizeof_float
            = available m"
    using cap bA bB bC by (simp add: byte_size_div)
  have run: "MatMul junk A B C general m = ?m10"
    unfolding MatMul_unfold Let_def r1 fst_conv snd_conv Matrix.simps s2 r3 s4 r5 s6' s7 s8 s9 s10
    by (rule refl)
  have dev: "?D(?n := None, Suc ?n := None, Suc (Suc ?n) := None) =
      (device m)(?n := None, Suc ?n := None, Suc (Suc ?n) := None)"
    by (rule ext) simp
  show ?thesis unfolding run av dev by simp
qed

subsection \<open>Launches, and the memory of the host\<close>

lemma launches_append: "launches (xs @ ys) = launches xs @ launches ys"
  by (induction xs rule: launches.induct) simp_all

lemma launches_cudaMalloc:
  "launches (trace (snd (snd (cudaMalloc p n m)))) = launches (trace m)"
  by (simp add: cudaMalloc_def launches_append)

lemma launches_cudaFree:
  "launches (trace (snd (cudaFree p m))) = launches (trace m)"
  by (simp add: cudaFree_def launches_append split: option.splits)

lemma launches_cudaLaunch:
  "launches (trace (snd (cudaLaunch k g d A B C m))) = launches (trace m) @ [k]"
  by (simp add: cudaLaunch_frame launches_append)

lemma launches_MatMul:
  "launches (trace (MatMul junk A B C general m)) =
     launches (trace m) @ [if general then KernelGeneral else KernelPartitioned]"
  unfolding MatMul_unfold Let_def
  by (simp only: launches_cudaFree launches_cudaLaunch launches_cudaMalloc cudaMemcpy_frame)

lemma cudaMemcpy_DeviceToHost_shape:
  "map_option length (host (snd (cudaMemcpy dst src n cudaMemcpyDeviceToHost m)) h) =
   map_option length (host m h)"
  using write_cells_shape[of "host m" dst _ _ h]
  by (auto simp: cudaMemcpy_def split: option.splits)

lemma MatMul_host_frame:
  assumes "h \<noteq> base (elements C)"
  shows "host (MatMul junk A B C general m) h = host m h"
  unfolding MatMul_unfold Let_def
  by (simp only: cudaFree_host cudaMemcpy_DeviceToHost_host[OF assms] cudaLaunch_frame
        cudaMalloc_host cudaMemcpy_HostToDevice_host Matrix.simps)

lemma MatMul_host_shape:
  "map_option length (host (MatMul junk A B C general m) h) = map_option length (host m h)"
  unfolding MatMul_unfold Let_def
  by (simp only: cudaFree_host cudaMemcpy_DeviceToHost_shape cudaLaunch_frame
        cudaMalloc_host cudaMemcpy_HostToDevice_host Matrix.simps)

lemma fresh_handles_device:
  "fresh_handles m \<Longrightarrow>
   (device m)(next_handle m := None, Suc (next_handle m) := None, Suc (Suc (next_handle m)) := None)
     = device m"
  by (rule ext) (simp add: fresh_handles_def)

lemma byte_size_16: "byte_size 16 16 = 1024"
  by (simp add: byte_size_def size_t_of_def sizeof_float_def int32_def)

lemma product_16_at_53:
  "product_buffer \<lparr>width = 16, height = 16, stride = s, elements = p\<rparr>
     \<lparr>width = 16, height = 16, stride = s', elements = p'\<rparr>
     (replicate 256 (1::int)) (replicate 256 2) ! 53 = 32"
  by (simp add: product_buffer_def dot_product_def cell_def GetElement_def load_def upto_16)

section \<open>Lemmas on the accelerator memory of a call\<close>

subsection \<open>The buffers live during a call\<close>

lemma transient_start: "fresh_handles m \<Longrightarrow> transient m m {}"
  by (simp add: transient_def fresh_handles_def)

lemma transient_end: "transient m m' {} \<Longrightarrow> device m' = device m"
proof (rule ext)
  fix h assume t: "transient m m' {}"
  show "device m' h = device m h"
  proof (cases "h \<in> dom (device m)")
    case True
    then show ?thesis using t by (simp add: transient_def)
  next
    case False
    moreover have "dom (device m') = dom (device m)" using t by (simp add: transient_def)
    ultimately have "h \<notin> dom (device m')" by simp
    then show ?thesis using False by (simp add: domIff)
  qed
qed

lemma dom_of_shape:
  "(\<And>h. map_option length (M' h) = map_option length (M h)) \<Longrightarrow> dom M' = dom M"
proof -
  assume a: "\<And>h. map_option length (M' h) = map_option length (M h)"
  have "M' h = None \<longleftrightarrow> M h = None" for h using a[of h] by (cases "M' h"; cases "M h") simp_all
  then have "h \<in> dom M' \<longleftrightarrow> h \<in> dom M" for h by (simp add: domIff)
  then show ?thesis by blast
qed

lemma transient_update:
  assumes t: "transient m m' L"
    and frame: "\<And>h. h \<noteq> c \<Longrightarrow> device m'' h = device m' h"
    and shape: "map_option length (device m'' c) = map_option length (device m' c)"
    and nh: "next_handle m'' = next_handle m'"
    and c: "c \<notin> dom (device m)"
  shows "transient m m'' L"
proof -
  have sh: "map_option length (device m'' h) = map_option length (device m' h)" for h
    using frame[of h] shape by (cases "h = c") simp_all
  have d: "dom (device m'') = dom (device m')" by (rule dom_of_shape) (rule sh)
  have "device m'' h = None" if "next_handle m'' \<le> h" for h
  proof -
    have "device m' h = None" using t that nh by (simp add: transient_def)
    then show ?thesis using sh[of h] by simp
  qed
  moreover have "device m'' h = device m h" if "h \<in> dom (device m)" for h
    using t that c frame[of h] by (auto simp: transient_def)
  ultimately show ?thesis using t d by (simp add: transient_def)
qed

lemma cudaMemcpy_HostToDevice_shape:
  "map_option length (device (snd (cudaMemcpy dst src n cudaMemcpyHostToDevice m)) h) =
   map_option length (device m h)"
  using write_cells_shape[of "device m" dst _ _ h]
  by (auto simp: cudaMemcpy_def split: option.splits)

lemma transient_cudaMemcpy_HostToDevice:
  assumes "transient m m' L" "base dst \<notin> dom (device m)"
  shows "transient m (snd (cudaMemcpy dst src n cudaMemcpyHostToDevice m')) L"
  using assms(1) _ _ _ assms(2)
  by (rule transient_update)
     (simp_all add: cudaMemcpy_HostToDevice_device cudaMemcpy_HostToDevice_shape cudaMemcpy_frame)

lemma transient_cudaMemcpy_DeviceToHost:
  assumes "transient m m' L"
  shows "transient m (snd (cudaMemcpy dst src n cudaMemcpyDeviceToHost m')) L"
  using assms by (simp add: transient_def cudaMemcpy_DeviceToHost_device cudaMemcpy_frame)

lemma transient_cudaLaunch:
  assumes "transient m m' L" "base (elements C) \<notin> dom (device m)"
  shows "transient m (snd (cudaLaunch k g d A B C m')) L"
  using assms(1) _ _ _ assms(2)
proof (rule transient_update)
  have ag: "agrees (device m') (device (snd (cudaLaunch k g d A B C m'))) C"
    by (rule cudaLaunch_agrees)
  show "\<And>h. h \<noteq> base (elements C) \<Longrightarrow>
          device (snd (cudaLaunch k g d A B C m')) h = device m' h"
    using ag by (simp add: agrees_def)
  show "map_option length (device (snd (cudaLaunch k g d A B C m')) (base (elements C))) =
        map_option length (device m' (base (elements C)))"
    using ag by (simp add: agrees_def)
  show "next_handle (snd (cudaLaunch k g d A B C m')) = next_handle m'"
    by (rule cudaLaunch_frame)
qed

subsection \<open>The accounts of a call\<close>

lemma allocated_append: "allocated (es @ es') = allocated es @ allocated es'"
  by (induction es rule: allocated.induct) simp_all

lemma released_append: "released (es @ es') = released es @ released es'"
  by (induction es rule: released.induct) simp_all

lemma ledger_start: "ledger m m {}"
  by (simp add: ledger_def)

lemma ledger_end:
  assumes "ledger m m' {}"
  shows "available m' = available m" "\<exists>es. trace m' = trace m @ es \<and> paired es"
proof -
  show "available m' = available m" using assms by (simp add: ledger_def)
  from assms obtain es where es: "trace m' = trace m @ es" "distinct (allocated es)"
    "distinct (released es)" "set (released es) \<subseteq> set (allocated es)"
    "{} = set (allocated es) - set (released es)"
    unfolding ledger_def by blast
  then have "set (released es) = set (allocated es)" by blast
  then show "\<exists>es. trace m' = trace m @ es \<and> paired es" using es by (auto simp: paired_def)
qed

lemma ledger_update:
  assumes l: "ledger m m' L"
    and sh: "\<And>h. map_option length (device m'' h) = map_option length (device m' h)"
    and av: "available m'' = available m'"
    and tr: "trace m'' = trace m' @ xs" "allocated xs = []" "released xs = []"
    and nh: "next_handle m'' = next_handle m'"
  shows "ledger m m'' L"
proof -
  have len: "length (the (device m'' h)) = length (the (device m' h))" for h
    using sh[of h] by (cases "device m'' h"; cases "device m' h") simp_all
  from l obtain es where es: "trace m' = trace m @ es" "distinct (allocated es)"
    "distinct (released es)" "set (released es) \<subseteq> set (allocated es)"
    "L = set (allocated es) - set (released es)" "\<forall>h \<in> set (allocated es). h < next_handle m'"
    unfolding ledger_def by blast
  have "trace m'' = trace m @ (es @ xs)" using es(1) tr(1) by simp
  moreover have "allocated (es @ xs) = allocated es" "released (es @ xs) = released es"
    using tr(2,3) by (simp_all add: allocated_append released_append)
  ultimately have "\<exists>es'. trace m'' = trace m @ es' \<and> distinct (allocated es') \<and> distinct (released es') \<and>
           set (released es') \<subseteq> set (allocated es') \<and>
           L = set (allocated es') - set (released es') \<and>
           (\<forall>h \<in> set (allocated es'). h < next_handle m'')"
    using es nh by (intro exI[of _ "es @ xs"]) simp
  moreover have "finite L"
    "available m'' + (\<Sum>h\<in>L. length (the (device m'' h)) * sizeof_float) = available m"
    using l av len by (simp_all add: ledger_def)
  ultimately show ?thesis unfolding ledger_def by blast
qed

lemma cudaMalloc_available:
  "available (snd (snd (cudaMalloc p n m))) = after_alloc (available m) n"
  by (simp add: cudaMalloc_def after_alloc_def)

lemma staged_cudaMalloc:
  assumes t: "transient m m' L" and l: "ledger m m' L" and dv: "sizeof_float dvd n"
  shows "\<exists>L'. transient m (snd (snd (cudaMalloc p n m'))) L' \<and>
           ledger m (snd (snd (cudaMalloc p n m'))) L' \<and>
           (\<forall>h \<in> L'. h \<in> L \<or> Ptr h 0 = fst (snd (cudaMalloc p n m'))) \<and>
           (base (fst (snd (cudaMalloc p n m'))) \<notin> dom (device m) \<or>
            fst (snd (cudaMalloc p n m')) = p \<and> available m' < n)"
proof (cases "n \<le> available m'")
  case False
  then have "cudaMalloc p n m' = (cudaErrorMemoryAllocation, p, m')" by (simp add: cudaMalloc_def)
  then show ?thesis using t l False by auto
next
  case True
  let ?h = "next_handle m'"
  let ?m'' = "m'\<lparr> device := (device m')(?h \<mapsto> map (residue m') [0..<n div sizeof_float]),
                  next_handle := Suc ?h, available := available m' - n,
                  trace := trace m' @ [Allocated ?h] \<rparr>"
  have r: "cudaMalloc p n m' = (cudaSuccess, Ptr ?h 0, ?m'')" using True by (simp add: cudaMalloc_def)
  have none: "device m' ?h = None" using t by (simp add: transient_def)
  have d: "dom (device m') = dom (device m) \<union> L" using t by (simp add: transient_def)
  have nd: "?h \<notin> dom (device m)" using none d by (auto simp: domIff)
  have nL: "?h \<notin> L" using none d by (auto simp: domIff)
  have tt: "transient m ?m'' (insert ?h L)"
    unfolding transient_def
  proof (intro conjI allI impI)
    fix h assume "h \<in> dom (device m)"
    then show "device ?m'' h = device m h" using t nd by (auto simp: transient_def)
  next
    show "dom (device ?m'') = dom (device m) \<union> insert ?h L" using d by auto
  next
    show "insert ?h L \<inter> dom (device m) = {}" using t nd by (auto simp: transient_def)
  next
    fix h assume "next_handle ?m'' \<le> h"
    then show "device ?m'' h = None" using t by (simp add: transient_def)
  qed
  from l obtain es where es: "trace m' = trace m @ es" "distinct (allocated es)"
    "distinct (released es)" "set (released es) \<subseteq> set (allocated es)"
    "L = set (allocated es) - set (released es)" "\<forall>h \<in> set (allocated es). h < ?h"
    and fin: "finite L"
    and av: "available m' + (\<Sum>h\<in>L. length (the (device m' h)) * sizeof_float) = available m"
    unfolding ledger_def by blast
  have hA: "?h \<notin> set (allocated es)" using es(6) by auto
  then have hR: "?h \<notin> set (released es)" using es(4) by auto
  have len: "n div sizeof_float * sizeof_float = n" using dv by simp
  have "(\<Sum>h\<in>insert ?h L. length (the (device ?m'' h)) * sizeof_float) =
          n + (\<Sum>h\<in>L. length (the (device m' h)) * sizeof_float)"
  proof -
    have "(\<Sum>h\<in>L. length (the (device ?m'' h)) * sizeof_float) =
          (\<Sum>h\<in>L. length (the (device m' h)) * sizeof_float)"
      using nL by (intro sum.cong) auto
    then show ?thesis using fin nL len by simp
  qed
  then have av': "available ?m'' + (\<Sum>h\<in>insert ?h L. length (the (device ?m'' h)) * sizeof_float)
                  = available m"
    using av True by simp
  have "\<exists>es'. trace ?m'' = trace m @ es' \<and> distinct (allocated es') \<and> distinct (released es') \<and>
           set (released es') \<subseteq> set (allocated es') \<and>
           insert ?h L = set (allocated es') - set (released es') \<and>
           (\<forall>h \<in> set (allocated es'). h < next_handle ?m'')"
  proof (intro exI[of _ "es @ [Allocated ?h]"] conjI)
    show "trace ?m'' = trace m @ es @ [Allocated ?h]" using es(1) by simp
    show "distinct (allocated (es @ [Allocated ?h]))" using es(2) hA by (simp add: allocated_append)
    show "distinct (released (es @ [Allocated ?h]))" using es(3) by (simp add: released_append)
    show "set (released (es @ [Allocated ?h])) \<subseteq> set (allocated (es @ [Allocated ?h]))"
      using es(4) by (auto simp: released_append allocated_append)
    show "insert ?h L = set (allocated (es @ [Allocated ?h])) - set (released (es @ [Allocated ?h]))"
      using es(5) hR by (auto simp: released_append allocated_append)
    show "\<forall>h \<in> set (allocated (es @ [Allocated ?h])). h < next_handle ?m''"
      using es(6) by (auto simp: allocated_append)
  qed
  then have ll: "ledger m ?m'' (insert ?h L)"
    unfolding ledger_def using fin av' by blast
  show ?thesis unfolding r using tt ll nd by (intro exI[of _ "insert ?h L"]) auto
qed

lemma staged_cudaMemcpy_HostToDevice:
  assumes "transient m m' L" "ledger m m' L" "base dst \<notin> dom (device m)"
  shows "transient m (snd (cudaMemcpy dst src n cudaMemcpyHostToDevice m')) L"
    and "ledger m (snd (cudaMemcpy dst src n cudaMemcpyHostToDevice m')) L"
proof -
  show "transient m (snd (cudaMemcpy dst src n cudaMemcpyHostToDevice m')) L"
    by (rule transient_cudaMemcpy_HostToDevice[OF assms(1,3)])
  show "ledger m (snd (cudaMemcpy dst src n cudaMemcpyHostToDevice m')) L"
    by (rule ledger_update[OF assms(2), where xs = "[]"])
       (simp_all add: cudaMemcpy_HostToDevice_shape cudaMemcpy_frame)
qed

lemma staged_cudaMemcpy_DeviceToHost:
  assumes "transient m m' L" "ledger m m' L"
  shows "transient m (snd (cudaMemcpy dst src n cudaMemcpyDeviceToHost m')) L"
    and "ledger m (snd (cudaMemcpy dst src n cudaMemcpyDeviceToHost m')) L"
proof -
  show "transient m (snd (cudaMemcpy dst src n cudaMemcpyDeviceToHost m')) L"
    by (rule transient_cudaMemcpy_DeviceToHost[OF assms(1)])
  show "ledger m (snd (cudaMemcpy dst src n cudaMemcpyDeviceToHost m')) L"
    by (rule ledger_update[OF assms(2), where xs = "[]"])
       (simp_all add: cudaMemcpy_DeviceToHost_device cudaMemcpy_frame)
qed

lemma staged_cudaLaunch:
  assumes "transient m m' L" "ledger m m' L" "base (elements C) \<notin> dom (device m)"
  shows "transient m (snd (cudaLaunch k g d A B C m')) L"
    and "ledger m (snd (cudaLaunch k g d A B C m')) L"
proof -
  show "transient m (snd (cudaLaunch k g d A B C m')) L"
    by (rule transient_cudaLaunch[OF assms(1,3)])
  have ag: "agrees (device m') (device (snd (cudaLaunch k g d A B C m'))) C"
    by (rule cudaLaunch_agrees)
  have sh: "map_option length (device (snd (cudaLaunch k g d A B C m')) h) =
            map_option length (device m' h)" for h
    using ag by (cases "h = base (elements C)") (simp_all add: agrees_def)
  show "ledger m (snd (cudaLaunch k g d A B C m')) L"
    by (rule ledger_update[OF assms(2), where xs = "[Launch k]"])
       (simp_all add: sh cudaLaunch_frame)
qed

lemma staged_cudaFree:
  assumes t: "transient m m' L" and l: "ledger m m' L" and p: "base p \<notin> dom (device m)"
  shows "\<exists>L'. transient m (snd (cudaFree p m')) L' \<and> ledger m (snd (cudaFree p m')) L' \<and>
           L' \<subseteq> L \<and> (\<forall>h. Ptr h 0 = p \<longrightarrow> h \<notin> L')"
proof (cases "device m' (base p) = None \<or> offs p \<noteq> 0")
  case True
  then have same: "snd (cudaFree p m') = m'" by (auto simp: cudaFree_def split: option.splits)
  have "h \<notin> L" if "Ptr h 0 = p" for h
  proof -
    have "device m' h = None" using True that by auto
    moreover have "dom (device m') = dom (device m) \<union> L" using t by (simp add: transient_def)
    ultimately show ?thesis by (auto simp: domIff)
  qed
  then show ?thesis using t l same by (intro exI[of _ L]) auto
next
  case False
  then obtain buf where buf: "device m' (base p) = Some buf" and o: "offs p = 0" by auto
  let ?b = "base p"
  let ?m'' = "m'\<lparr> device := (device m')(?b := None),
                  available := available m' + length buf * sizeof_float,
                  trace := trace m' @ [Released ?b] \<rparr>"
  have same: "snd (cudaFree p m') = ?m''" using buf o by (simp add: cudaFree_def)
  have d: "dom (device m') = dom (device m) \<union> L" using t by (simp add: transient_def)
  have bL: "?b \<in> L" using buf d p by (auto simp: domIff)
  have tt: "transient m ?m'' (L - {?b})"
    unfolding transient_def
  proof (intro conjI allI impI)
    fix h assume "h \<in> dom (device m)"
    then show "device ?m'' h = device m h" using t p by (auto simp: transient_def)
  next
    show "dom (device ?m'') = dom (device m) \<union> (L - {?b})" using d p by auto
  next
    show "(L - {?b}) \<inter> dom (device m) = {}" using t by (auto simp: transient_def)
  next
    fix h assume "next_handle ?m'' \<le> h"
    then show "device ?m'' h = None" using t by (simp add: transient_def)
  qed
  from l obtain es where es: "trace m' = trace m @ es" "distinct (allocated es)"
    "distinct (released es)" "set (released es) \<subseteq> set (allocated es)"
    "L = set (allocated es) - set (released es)" "\<forall>h \<in> set (allocated es). h < next_handle m'"
    and fin: "finite L"
    and av: "available m' + (\<Sum>h\<in>L. length (the (device m' h)) * sizeof_float) = available m"
    unfolding ledger_def by blast
  have bA: "?b \<in> set (allocated es)" and bR: "?b \<notin> set (released es)" using bL es(5) by auto
  have "(\<Sum>h\<in>L. length (the (device m' h)) * sizeof_float) =
        length buf * sizeof_float + (\<Sum>h\<in>L - {?b}. length (the (device m' h)) * sizeof_float)"
    using sum.remove[OF fin bL, of "\<lambda>h. length (the (device m' h)) * sizeof_float"] buf by simp
  moreover have "(\<Sum>h\<in>L - {?b}. length (the (device ?m'' h)) * sizeof_float) =
        (\<Sum>h\<in>L - {?b}. length (the (device m' h)) * sizeof_float)"
    by (intro sum.cong) auto
  ultimately have av': "available ?m'' + (\<Sum>h\<in>L - {?b}. length (the (device ?m'' h)) * sizeof_float)
                  = available m"
    using av by simp
  have "\<exists>es'. trace ?m'' = trace m @ es' \<and> distinct (allocated es') \<and> distinct (released es') \<and>
           set (released es') \<subseteq> set (allocated es') \<and>
           L - {?b} = set (allocated es') - set (released es') \<and>
           (\<forall>h \<in> set (allocated es'). h < next_handle ?m'')"
  proof (intro exI[of _ "es @ [Released ?b]"] conjI)
    show "trace ?m'' = trace m @ es @ [Released ?b]" using es(1) by simp
    show "distinct (allocated (es @ [Released ?b]))" using es(2) by (simp add: allocated_append)
    show "distinct (released (es @ [Released ?b]))" using es(3) bR by (simp add: released_append)
    show "set (released (es @ [Released ?b])) \<subseteq> set (allocated (es @ [Released ?b]))"
      using es(4) bA by (auto simp: released_append allocated_append)
    show "L - {?b} = set (allocated (es @ [Released ?b])) - set (released (es @ [Released ?b]))"
      using es(5) by (auto simp: released_append allocated_append)
    show "\<forall>h \<in> set (allocated (es @ [Released ?b])). h < next_handle ?m''"
      using es(6) by (auto simp: allocated_append)
  qed
  then have ll: "ledger m ?m'' (L - {?b})"
    unfolding ledger_def using fin av' by blast
  have "h \<notin> L - {?b}" if "Ptr h 0 = p" for h using that by auto
  then show ?thesis unfolding same using tt ll by (intro exI[of _ "L - {?b}"]) auto
qed

subsection \<open>A call restores the accelerator memory\<close>

lemma byte_size_dvd: "sizeof_float dvd byte_size w h"
proof -
  have "(4::nat) dvd 2 ^ 64" by simp
  then show ?thesis unfolding byte_size_def sizeof_float_def by (simp add: dvd_mod)
qed

lemma MatMul_settles:
  fixes m :: "('a::{zero,plus,times}) machine"
  assumes f: "fresh_handles m" and j: "unassigned_dead m junk A B C"
  shows "device (MatMul junk A B C general m) = device m"
    and "available (MatMul junk A B C general m) = available m"
    and "\<exists>es. trace (MatMul junk A B C general m) = trace m @ es \<and> paired es"
    and "fresh_handles (MatMul junk A B C general m)"
proof -
  define size_A where "size_A = byte_size (width A) (height A)"
  define size_B where "size_B = byte_size (width B) (height B)"
  define size_C where "size_C = byte_size (width C) (height C)"
  define p_A where "p_A = fst (snd (cudaMalloc (fst junk) size_A m))"
  define m1 where "m1 = snd (snd (cudaMalloc (fst junk) size_A m))"
  define m2 where "m2 = snd (cudaMemcpy p_A (elements A) size_A cudaMemcpyHostToDevice m1)"
  define p_B where "p_B = fst (snd (cudaMalloc (fst (snd junk)) size_B m2))"
  define m3 where "m3 = snd (snd (cudaMalloc (fst (snd junk)) size_B m2))"
  define m4 where "m4 = snd (cudaMemcpy p_B (elements B) size_B cudaMemcpyHostToDevice m3)"
  define p_C where "p_C = fst (snd (cudaMalloc (snd (snd junk)) size_C m4))"
  define m5 where "m5 = snd (snd (cudaMalloc (snd (snd junk)) size_C m4))"
  define d_A where "d_A = \<lparr> width = width A, height = height A, stride = width A, elements = p_A \<rparr>"
  define d_B where "d_B = \<lparr> width = width B, height = height B, stride = width B, elements = p_B \<rparr>"
  define d_C where "d_C = \<lparr> width = width C, height = height C, stride = width C, elements = p_C \<rparr>"
  define m6 where "m6 = snd (cudaLaunch (if general then KernelGeneral else KernelPartitioned)
                      (unsigned_of (width B) div 16, unsigned_of (height A) div 16) (16, 16)
                      d_A d_B d_C m5)"
  define m7 where "m7 = snd (cudaMemcpy (elements C) p_C size_C cudaMemcpyDeviceToHost m6)"
  define m8 where "m8 = snd (cudaFree p_A m7)"
  define m9 where "m9 = snd (cudaFree p_B m8)"
  define m10 where "m10 = snd (cudaFree p_C m9)"
  have run: "MatMul junk A B C general m = m10"
    unfolding MatMul_unfold Let_def m10_def m9_def m8_def m7_def m6_def d_A_def d_B_def d_C_def
      m5_def p_C_def m4_def m3_def p_B_def m2_def m1_def p_A_def size_A_def size_B_def size_C_def
    by simp
  have dv: "sizeof_float dvd size_A" "sizeof_float dvd size_B" "sizeof_float dvd size_C"
    by (simp_all add: size_A_def size_B_def size_C_def byte_size_dvd)
  have av2: "available m2 = after_alloc (available m) size_A"
    unfolding m2_def m1_def by (simp add: cudaMemcpy_frame cudaMalloc_available)
  have av4: "available m4 = after_alloc (after_alloc (available m) size_A) size_B"
    unfolding m4_def m3_def by (simp add: cudaMemcpy_frame cudaMalloc_available av2)
  have jn: "available m < size_A \<Longrightarrow> base (fst junk) \<notin> dom (device m)"
    "available m2 < size_B \<Longrightarrow> base (fst (snd junk)) \<notin> dom (device m)"
    "available m4 < size_C \<Longrightarrow> base (snd (snd junk)) \<notin> dom (device m)"
    using j unfolding av2 av4 size_A_def size_B_def size_C_def
    by (simp_all add: unassigned_dead_def domIff)
  have "\<exists>L'. transient m m1 L' \<and> ledger m m1 L' \<and> (\<forall>h \<in> L'. h \<in> {} \<or> Ptr h 0 = p_A) \<and>
          (base p_A \<notin> dom (device m) \<or> p_A = fst junk \<and> available m < size_A)"
    unfolding m1_def p_A_def
    by (rule staged_cudaMalloc[OF transient_start[OF f] ledger_start dv(1)])
  then obtain L1 where t1: "transient m m1 L1" and l1: "ledger m m1 L1"
    and o1: "\<And>h. h \<in> L1 \<Longrightarrow> Ptr h 0 = p_A"
    and a: "base p_A \<notin> dom (device m)"
    using jn(1) by auto
  have t2: "transient m m2 L1" and l2: "ledger m m2 L1"
    unfolding m2_def by (rule staged_cudaMemcpy_HostToDevice[OF t1 l1 a])+
  have "\<exists>L'. transient m m3 L' \<and> ledger m m3 L' \<and> (\<forall>h \<in> L'. h \<in> L1 \<or> Ptr h 0 = p_B) \<and>
          (base p_B \<notin> dom (device m) \<or> p_B = fst (snd junk) \<and> available m2 < size_B)"
    unfolding m3_def p_B_def by (rule staged_cudaMalloc[OF t2 l2 dv(2)])
  then obtain L3 where t3: "transient m m3 L3" and l3: "ledger m m3 L3"
    and o3: "\<And>h. h \<in> L3 \<Longrightarrow> h \<in> L1 \<or> Ptr h 0 = p_B"
    and b: "base p_B \<notin> dom (device m)"
    using jn(2) by auto
  have t4: "transient m m4 L3" and l4: "ledger m m4 L3"
    unfolding m4_def by (rule staged_cudaMemcpy_HostToDevice[OF t3 l3 b])+
  have "\<exists>L'. transient m m5 L' \<and> ledger m m5 L' \<and> (\<forall>h \<in> L'. h \<in> L3 \<or> Ptr h 0 = p_C) \<and>
          (base p_C \<notin> dom (device m) \<or> p_C = snd (snd junk) \<and> available m4 < size_C)"
    unfolding m5_def p_C_def by (rule staged_cudaMalloc[OF t4 l4 dv(3)])
  then obtain L5 where t5: "transient m m5 L5" and l5: "ledger m m5 L5"
    and o5: "\<And>h. h \<in> L5 \<Longrightarrow> h \<in> L3 \<or> Ptr h 0 = p_C"
    and c: "base p_C \<notin> dom (device m)"
    using jn(3) by auto
  have dc: "base (elements d_C) \<notin> dom (device m)" using c by (simp add: d_C_def)
  have t6: "transient m m6 L5" and l6: "ledger m m6 L5"
    unfolding m6_def by (rule staged_cudaLaunch[OF t5 l5 dc])+
  have t7: "transient m m7 L5" and l7: "ledger m m7 L5"
    unfolding m7_def by (rule staged_cudaMemcpy_DeviceToHost[OF t6 l6])+
  from staged_cudaFree[OF t7 l7 a]
  obtain L8 where t8: "transient m m8 L8" and l8: "ledger m m8 L8" and s8: "L8 \<subseteq> L5"
    and n8: "\<And>h. Ptr h 0 = p_A \<Longrightarrow> h \<notin> L8"
    unfolding m8_def by blast
  from staged_cudaFree[OF t8 l8 b]
  obtain L9 where t9: "transient m m9 L9" and l9: "ledger m m9 L9" and s9: "L9 \<subseteq> L8"
    and n9: "\<And>h. Ptr h 0 = p_B \<Longrightarrow> h \<notin> L9"
    unfolding m9_def by blast
  from staged_cudaFree[OF t9 l9 c]
  obtain L10 where t10: "transient m m10 L10" and l10: "ledger m m10 L10" and s10: "L10 \<subseteq> L9"
    and n10: "\<And>h. Ptr h 0 = p_C \<Longrightarrow> h \<notin> L10"
    unfolding m10_def by blast
  have "L10 = {}"
  proof (rule ccontr)
    assume "L10 \<noteq> {}"
    then obtain h where h: "h \<in> L10" by blast
    then have h9: "h \<in> L9" and h8: "h \<in> L8" and h5: "h \<in> L5" using s10 s9 s8 by auto
    have "Ptr h 0 \<noteq> p_C" "Ptr h 0 \<noteq> p_B" "Ptr h 0 \<noteq> p_A"
      using n10[of h] n9[of h] n8[of h] h h9 h8 by auto
    then show False using o5[OF h5] o3[of h] o1[of h] by auto
  qed
  then have te: "transient m m10 {}" and le: "ledger m m10 {}" using t10 l10 by simp_all
  show "device (MatMul junk A B C general m) = device m"
    unfolding run by (rule transient_end[OF te])
  show "available (MatMul junk A B C general m) = available m"
    unfolding run by (rule ledger_end(1)[OF le])
  show "\<exists>es. trace (MatMul junk A B C general m) = trace m @ es \<and> paired es"
    unfolding run by (rule ledger_end(2)[OF le])
  show "fresh_handles (MatMul junk A B C general m)"
    unfolding run using te by (simp add: transient_def fresh_handles_def)
qed

lemma MatMul_released_fresh:
  fixes m :: "('a::{zero,plus,times}) machine"
  assumes f: "fresh_handles m" and r: "room_for m A B C"
  shows "device (MatMul junk A B C general m) = device m"
    and "available (MatMul junk A B C general m) = available m"
    and "next_handle (MatMul junk A B C general m) = Suc (Suc (Suc (next_handle m)))"
    and "trace (MatMul junk A B C general m) =
           trace m @
             [Allocated (next_handle m), Allocated (Suc (next_handle m)),
              Allocated (Suc (Suc (next_handle m))),
              Launch (if general then KernelGeneral else KernelPartitioned),
              Released (next_handle m), Released (Suc (next_handle m)),
              Released (Suc (Suc (next_handle m)))]"
proof -
  have c: "byte_size (width A) (height A) + byte_size (width B) (height B) +
           byte_size (width C) (height C) \<le> available m"
    using r by (simp add: room_for_def)
  show "device (MatMul junk A B C general m) = device m"
    by (subst MatMul_released[OF c]) (simp add: fresh_handles_device[OF f])
  show "available (MatMul junk A B C general m) = available m"
    by (subst MatMul_released[OF c]) simp
  show "next_handle (MatMul junk A B C general m) = Suc (Suc (Suc (next_handle m)))"
    by (subst MatMul_released[OF c]) simp
  show "trace (MatMul junk A B C general m) =
           trace m @
             [Allocated (next_handle m), Allocated (Suc (next_handle m)),
              Allocated (Suc (Suc (next_handle m))),
              Launch (if general then KernelGeneral else KernelPartitioned),
              Released (next_handle m), Released (Suc (next_handle m)),
              Released (Suc (Suc (next_handle m)))]"
    by (subst MatMul_released[OF c]) simp
qed

lemma room_for_unassigned: "room_for m A B C \<Longrightarrow> unassigned_dead m junk A B C"
  by (auto simp: room_for_def unassigned_dead_def after_alloc_def)

lemma MatMul_calls_settle:
  fixes m :: "('a::{zero,plus,times}) machine"
  shows "fresh_handles m \<Longrightarrow>
    (\<forall>(junk, A, B, C, general) \<in> set calls. unassigned_dead m junk A B C) \<Longrightarrow>
    device (MatMul_calls calls m) = device m \<and> available (MatMul_calls calls m) = available m"
proof (induction calls arbitrary: m)
  case Nil
  then show ?case by simp
next
  case (Cons c calls)
  obtain junk A B C general where c: "c = (junk, A, B, C, general)" by (cases c) auto
  let ?m' = "MatMul junk A B C general m"
  have "unassigned_dead m junk A B C" using Cons.prems(2) c by simp
  from MatMul_settles(1,2,4)[OF Cons.prems(1) this, of general]
  have R: "device ?m' = device m" "available ?m' = available m" "fresh_handles ?m'" .
  have r': "\<forall>(junk, A, B, C, general) \<in> set calls. unassigned_dead ?m' junk A B C"
    using Cons.prems(2) R(1,2) by (auto simp: unassigned_dead_def)
  from Cons.IH[OF R(3) r'] R show ?case using c by simp
qed

subsection \<open>Calls of the runtime that fail\<close>

lemma cudaLaunch_dead:
  assumes "device m (base (elements C)) = None"
  shows "snd (cudaLaunch k g d A B C m) = m\<lparr> trace := trace m @ [Launch k] \<rparr>"
proof -
  let ?D = "device (snd (cudaLaunch k g d A B C m))"
  have ag: "agrees (device m) ?D C" by (rule cudaLaunch_agrees)
  have "?D h = device m h" for h
    using ag assms by (cases "h = base (elements C)") (simp_all add: agrees_def)
  then have "?D = device m" by (rule ext)
  then show ?thesis using cudaLaunch_snd[of k g d A B C m] by simp
qed

lemma cudaMalloc_fails:
  "available m < count \<Longrightarrow> cudaMalloc p count m = (cudaErrorMemoryAllocation, p, m)"
  by (simp add: cudaMalloc_def)

lemma cudaMemcpy_DeviceToHost_dead:
  "device m (base src) = None \<Longrightarrow> snd (cudaMemcpy dst src count cudaMemcpyDeviceToHost m) = m"
  by (simp add: cudaMemcpy_def read_cells_def)

lemma cudaMemcpy_HostToDevice_dead:
  "device m (base dst) = None \<Longrightarrow> snd (cudaMemcpy dst src count cudaMemcpyHostToDevice m) = m"
  by (simp add: cudaMemcpy_def write_cells_def split: option.splits)

lemma cudaMemcpy_HostToDevice_short:
  assumes "host m (base src) = Some hbuf" "offs src = 0" "count div sizeof_float \<le> length hbuf"
    and "device m (base dst) = Some dbuf" "length dbuf < count div sizeof_float"
  shows "snd (cudaMemcpy dst src count cudaMemcpyHostToDevice m) = m"
  using assms by (simp add: cudaMemcpy_def read_cells_def write_cells_def)

lemma cudaFree_dead:
  "device m (base p) = None \<Longrightarrow> snd (cudaFree p m) = m"
  by (simp add: cudaFree_def)


section \<open>The claims on the host code\<close>

text \<open>
  C2. For matrices of the host that satisfy the invariant on the dimensions (square or
  not), on a machine with room for the three buffers, \<open>MatMul\<close> with the direct kernel
  and \<open>MatMul\<close> with the tiled kernel leave the same host memory, and the buffer of
  \<open>C\<close> holds in each element the sum of the products added from left to right. The
  element type is arbitrary and no law of its addition is used, so the two results are
  the same bit for bit.
\<close>

theorem strategies_agree:
  fixes m :: "('a::{zero,plus,times}) machine"
  assumes "host_matrix (host m) A" and "host_matrix (host m) B" and "host_matrix (host m) C"
    and "dimension_invariant A B C"
    and "byte_size (width A) (height A) + byte_size (width B) (height B) +
         byte_size (width C) (height C) \<le> available m"
  shows "host (MatMul junk A B C True m) = host (MatMul junk' A B C False m) \<and>
         (\<exists>bufA bufB.
            host m (base (elements A)) = Some bufA \<and> host m (base (elements B)) = Some bufB \<and>
            host (MatMul junk A B C True m) (base (elements C)) =
              Some (product_buffer A B bufA bufB))"
proof -
  obtain bufA where bufA: "host m (base (elements A)) = Some bufA"
    by (rule host_matrix_buffer[OF assms(1)])
  obtain bufB where bufB: "host m (base (elements B)) = Some bufB"
    by (rule host_matrix_buffer[OF assms(2)])
  have "host (MatMul junk A B C True m) =
          (host m)(base (elements C) \<mapsto> product_buffer A B bufA bufB)"
    by (subst MatMul_success[OF assms bufA bufB]) simp
  moreover have "host (MatMul junk' A B C False m) =
          (host m)(base (elements C) \<mapsto> product_buffer A B bufA bufB)"
    by (subst MatMul_success[OF assms bufA bufB]) simp
  ultimately show ?thesis using bufA bufB by simp
qed

theorem strategies_agree_witness:
  "host_matrix [0 \<mapsto> replicate 256 (1::int), 1 \<mapsto> replicate 256 2, 2 \<mapsto> replicate 256 0]
     \<lparr>width = 16, height = 16, stride = 16, elements = Ptr 0 0\<rparr> \<and>
   dimension_invariant \<lparr>width = 16, height = 16, stride = 16, elements = Ptr 0 0\<rparr>
     \<lparr>width = 16, height = 16, stride = 16, elements = Ptr 1 0\<rparr>
     \<lparr>width = 16, height = 16, stride = 16, elements = Ptr 2 0\<rparr> \<and>
   host (MatMul (Ptr 0 0, Ptr 0 0, Ptr 0 0)
           \<lparr>width = 16, height = 16, stride = 16, elements = Ptr 0 0\<rparr>
           \<lparr>width = 16, height = 16, stride = 16, elements = Ptr 1 0\<rparr>
           \<lparr>width = 16, height = 16, stride = 16, elements = Ptr 2 0\<rparr> True
           \<lparr>host = [0 \<mapsto> replicate 256 (1::int), 1 \<mapsto> replicate 256 2, 2 \<mapsto> replicate 256 0],
            device = Map.empty, next_handle = 0, available = 4096, residue = (\<lambda>i. 7), trace = []\<rparr>) =
   host (MatMul (Ptr 0 0, Ptr 0 0, Ptr 0 0)
           \<lparr>width = 16, height = 16, stride = 16, elements = Ptr 0 0\<rparr>
           \<lparr>width = 16, height = 16, stride = 16, elements = Ptr 1 0\<rparr>
           \<lparr>width = 16, height = 16, stride = 16, elements = Ptr 2 0\<rparr> False
           \<lparr>host = [0 \<mapsto> replicate 256 (1::int), 1 \<mapsto> replicate 256 2, 2 \<mapsto> replicate 256 0],
            device = Map.empty, next_handle = 0, available = 4096, residue = (\<lambda>i. 7), trace = []\<rparr>) \<and>
   (\<exists>buf. host (MatMul (Ptr 0 0, Ptr 0 0, Ptr 0 0)
           \<lparr>width = 16, height = 16, stride = 16, elements = Ptr 0 0\<rparr>
           \<lparr>width = 16, height = 16, stride = 16, elements = Ptr 1 0\<rparr>
           \<lparr>width = 16, height = 16, stride = 16, elements = Ptr 2 0\<rparr> True
           \<lparr>host = [0 \<mapsto> replicate 256 (1::int), 1 \<mapsto> replicate 256 2, 2 \<mapsto> replicate 256 0],
            device = Map.empty, next_handle = 0, available = 4096, residue = (\<lambda>i. 7), trace = []\<rparr>) 2
          = Some buf \<and> buf ! 53 = 32)"
proof -
  let ?A = "\<lparr>width = 16, height = 16, stride = 16, elements = Ptr 0 0\<rparr>"
  let ?B = "\<lparr>width = 16, height = 16, stride = 16, elements = Ptr 1 0\<rparr>"
  let ?C = "\<lparr>width = 16, height = 16, stride = 16, elements = Ptr 2 0\<rparr>"
  let ?H = "[0 \<mapsto> replicate 256 (1::int), 1 \<mapsto> replicate 256 2, 2 \<mapsto> replicate 256 0]"
  let ?m = "\<lparr>host = ?H, device = Map.empty, next_handle = 0, available = 4096,
             residue = (\<lambda>i. 7), trace = []\<rparr>"
  let ?j = "(Ptr 0 0, Ptr 0 0, Ptr 0 0)"
  have h: "host_matrix (host ?m) ?A" "host_matrix (host ?m) ?B" "host_matrix (host ?m) ?C"
    by (simp_all add: host_matrix_def INT_MAX_def)
  have d: "dimension_invariant ?A ?B ?C"
    by (simp add: dimension_invariant_def BLOCK_SIZE_def)
  have c: "byte_size (width ?A) (height ?A) + byte_size (width ?B) (height ?B) +
           byte_size (width ?C) (height ?C) \<le> available ?m"
    by (simp add: byte_size_16)
  from strategies_agree[OF h d c, of ?j ?j] obtain bufA bufB where
    eq: "host (MatMul ?j ?A ?B ?C True ?m) = host (MatMul ?j ?A ?B ?C False ?m)"
    and b: "host ?m (base (elements ?A)) = Some bufA" "host ?m (base (elements ?B)) = Some bufB"
    and r: "host (MatMul ?j ?A ?B ?C True ?m) (base (elements ?C)) = Some (product_buffer ?A ?B bufA bufB)"
    by blast
  have "bufA = replicate 256 1" "bufB = replicate 256 2" using b by simp_all
  then have "host (MatMul ?j ?A ?B ?C True ?m) 2 =
               Some (product_buffer ?A ?B (replicate 256 1) (replicate 256 2))"
    using r by simp
  then have "\<exists>buf. host (MatMul ?j ?A ?B ?C True ?m) 2 = Some buf \<and> buf ! 53 = 32"
    using product_16_at_53[of 16 "Ptr 0 0" 16 "Ptr 1 0"] by blast
  then show ?thesis using h(1) d eq by simp
qed




text \<open>
  C7, as amended. On the host \<open>MatMul\<close> changes no buffer other than that of
  \<open>C\<close>, whose length it keeps: when the buffers of \<open>A\<close> and \<open>B\<close> are apart from that
  of \<open>C\<close>, their contents are after the call what they were before, on every path.
  The descriptors are passed by value: they are arguments of the model, which returns
  the machine alone. On a machine whose allocator is sound, the accelerator memory and
  the number of free bytes are after the call what they were before, the staging
  buffers being allocated and released by the call, whenever none of the pointers that
  the call leaves unassigned names a live buffer, as when the three allocations
  succeed.
\<close>

theorem MatMul_frame:
  fixes m :: "('a::{zero,plus,times}) machine"
  assumes "base (elements A) \<noteq> base (elements C)" and "base (elements B) \<noteq> base (elements C)"
  shows "host (MatMul junk A B C general m) (base (elements A)) = host m (base (elements A)) \<and>
         host (MatMul junk A B C general m) (base (elements B)) = host m (base (elements B)) \<and>
         (\<forall>h. h \<noteq> base (elements C) \<longrightarrow> host (MatMul junk A B C general m) h = host m h) \<and>
         map_option length (host (MatMul junk A B C general m) (base (elements C))) =
           map_option length (host m (base (elements C))) \<and>
         (fresh_handles m \<and> unassigned_dead m junk A B C \<longrightarrow>
          device (MatMul junk A B C general m) = device m \<and>
          available (MatMul junk A B C general m) = available m) \<and>
         (room_for m A B C \<longrightarrow> unassigned_dead m junk A B C)"
proof -
  have "device (MatMul junk A B C general m) = device m \<and>
        available (MatMul junk A B C general m) = available m"
    if "fresh_handles m" "unassigned_dead m junk A B C"
    using MatMul_settles(1,2)[OF that, of general] by simp
  then show ?thesis
    using MatMul_host_frame[of _ C junk A B general m] MatMul_host_shape[of junk A B C general m] assms
      room_for_unassigned[of m A B C junk]
    by blast
qed

theorem MatMul_frame_witness:
  "base (elements \<lparr>width = 16, height = 16, stride = 16, elements = Ptr 0 0\<rparr>) \<noteq>
   base (elements \<lparr>width = 16, height = 16, stride = 16, elements = Ptr 2 0\<rparr>) \<and>
   fresh_handles \<lparr>host = [0 \<mapsto> replicate 256 (1::int), 1 \<mapsto> replicate 256 2, 2 \<mapsto> replicate 256 0],
            device = [0 \<mapsto> [5]], next_handle = 1, available = 4096, residue = (\<lambda>i. 7), trace = []\<rparr> \<and>
   room_for \<lparr>host = [0 \<mapsto> replicate 256 (1::int), 1 \<mapsto> replicate 256 2, 2 \<mapsto> replicate 256 0],
            device = [0 \<mapsto> [5]], next_handle = 1, available = 4096, residue = (\<lambda>i. 7), trace = []\<rparr>
     \<lparr>width = 16, height = 16, stride = 16, elements = Ptr 0 0\<rparr>
     \<lparr>width = 16, height = 16, stride = 16, elements = Ptr 1 0\<rparr>
     \<lparr>width = 16, height = 16, stride = 16, elements = Ptr 2 0\<rparr> \<and>
   host (MatMul (Ptr 0 0, Ptr 0 0, Ptr 0 0)
           \<lparr>width = 16, height = 16, stride = 16, elements = Ptr 0 0\<rparr>
           \<lparr>width = 16, height = 16, stride = 16, elements = Ptr 1 0\<rparr>
           \<lparr>width = 16, height = 16, stride = 16, elements = Ptr 2 0\<rparr> True
           \<lparr>host = [0 \<mapsto> replicate 256 (1::int), 1 \<mapsto> replicate 256 2, 2 \<mapsto> replicate 256 0],
            device = [0 \<mapsto> [5]], next_handle = 1, available = 4096, residue = (\<lambda>i. 7), trace = []\<rparr>) 0
     = Some (replicate 256 1) \<and>
   device (MatMul (Ptr 0 0, Ptr 0 0, Ptr 0 0)
           \<lparr>width = 16, height = 16, stride = 16, elements = Ptr 0 0\<rparr>
           \<lparr>width = 16, height = 16, stride = 16, elements = Ptr 1 0\<rparr>
           \<lparr>width = 16, height = 16, stride = 16, elements = Ptr 2 0\<rparr> True
           \<lparr>host = [0 \<mapsto> replicate 256 (1::int), 1 \<mapsto> replicate 256 2, 2 \<mapsto> replicate 256 0],
            device = [0 \<mapsto> [5]], next_handle = 1, available = 4096, residue = (\<lambda>i. 7), trace = []\<rparr>)
     = [0 \<mapsto> [5]] \<and>
   unassigned_dead \<lparr>host = [0 \<mapsto> replicate 256 (1::int), 1 \<mapsto> replicate 256 2, 2 \<mapsto> replicate 256 0],
            device = [0 \<mapsto> [5]], next_handle = 1, available = 1024, residue = (\<lambda>i. 7), trace = []\<rparr> (Ptr 0 0, Ptr 9 0, Ptr 9 0)
     \<lparr>width = 16, height = 16, stride = 16, elements = Ptr 0 0\<rparr>
     \<lparr>width = 16, height = 16, stride = 16, elements = Ptr 1 0\<rparr>
     \<lparr>width = 16, height = 16, stride = 16, elements = Ptr 2 0\<rparr> \<and>
   available (MatMul (Ptr 0 0, Ptr 9 0, Ptr 9 0)
           \<lparr>width = 16, height = 16, stride = 16, elements = Ptr 0 0\<rparr>
           \<lparr>width = 16, height = 16, stride = 16, elements = Ptr 1 0\<rparr>
           \<lparr>width = 16, height = 16, stride = 16, elements = Ptr 2 0\<rparr> False
           \<lparr>host = [0 \<mapsto> replicate 256 (1::int), 1 \<mapsto> replicate 256 2, 2 \<mapsto> replicate 256 0],
            device = [0 \<mapsto> [5]], next_handle = 1, available = 1024, residue = (\<lambda>i. 7), trace = []\<rparr>)
     = 1024"
proof -
  let ?A = "\<lparr>width = 16, height = 16, stride = 16, elements = Ptr 0 0\<rparr>"
  let ?B = "\<lparr>width = 16, height = 16, stride = 16, elements = Ptr 1 0\<rparr>"
  let ?C = "\<lparr>width = 16, height = 16, stride = 16, elements = Ptr 2 0\<rparr>"
  let ?m = "\<lparr>host = [0 \<mapsto> replicate 256 (1::int), 1 \<mapsto> replicate 256 2, 2 \<mapsto> replicate 256 0],
            device = [0 \<mapsto> [5]], next_handle = 1, available = 4096, residue = (\<lambda>i. 7), trace = []\<rparr>"
  let ?z = "\<lparr>host = [0 \<mapsto> replicate 256 (1::int), 1 \<mapsto> replicate 256 2, 2 \<mapsto> replicate 256 0],
            device = [0 \<mapsto> [5]], next_handle = 1, available = 1024, residue = (\<lambda>i. 7), trace = []\<rparr>"
  let ?j = "(Ptr 0 0, Ptr 0 0, Ptr 0 0)"
  let ?k = "(Ptr 0 0, Ptr 9 0, Ptr 9 0)"
  have ne: "base (elements ?A) \<noteq> base (elements ?C)" "base (elements ?B) \<noteq> base (elements ?C)"
    by simp_all
  have f: "fresh_handles ?m" "fresh_handles ?z" by (simp_all add: fresh_handles_def)
  have c: "room_for ?m ?A ?B ?C"
    by (simp add: room_for_def) (simp add: byte_size_16)
  have d: "unassigned_dead ?z ?k ?A ?B ?C"
    by (simp add: unassigned_dead_def) (simp add: byte_size_16 after_alloc_def)
  from MatMul_frame[OF ne, of ?j True ?m] f(1) c
  have "host (MatMul ?j ?A ?B ?C True ?m) (base (elements ?A)) = host ?m (base (elements ?A))"
    "device (MatMul ?j ?A ?B ?C True ?m) = device ?m"
    by blast+
  moreover from MatMul_frame[OF ne, of ?k False ?z] f(2) d
  have "available (MatMul ?k ?A ?B ?C False ?z) = available ?z"
    by blast
  ultimately show ?thesis using ne(1) f(1) c d by simp
qed

text \<open>
  C7 as stated fails on the path of a failed allocation. The accelerator holds one
  buffer of another owner under handle 0 and has no free bytes; the uninitialised
  pointer of \<open>d_B\<close> happens to be that handle. The call allocates nothing, and
  \<open>cudaFree(d_B.elements)\<close> releases the buffer of the other owner: accelerator
  memory that the call has not allocated is changed.
\<close>

theorem foreign_buffer_released_counterexample:
  "base (elements \<lparr>width = 16, height = 16, stride = 16, elements = Ptr 0 0\<rparr>) \<noteq> base (elements \<lparr>width = 16, height = 16, stride = 16, elements = Ptr 2 0\<rparr>) \<and>
   base (elements \<lparr>width = 16, height = 16, stride = 16, elements = Ptr 1 0\<rparr>) \<noteq> base (elements \<lparr>width = 16, height = 16, stride = 16, elements = Ptr 2 0\<rparr>) \<and>
   fresh_handles \<lparr>host = [0 \<mapsto> replicate 256 (1::int), 1 \<mapsto> replicate 256 2, 2 \<mapsto> replicate 256 0],
            device = [0 \<mapsto> [5]], next_handle = 1, available = 0, residue = (\<lambda>i. 7), trace = []\<rparr> \<and>
   device \<lparr>host = [0 \<mapsto> replicate 256 (1::int), 1 \<mapsto> replicate 256 2, 2 \<mapsto> replicate 256 0],
            device = [0 \<mapsto> [5]], next_handle = 1, available = 0, residue = (\<lambda>i. 7), trace = []\<rparr> 0
     = Some [5] \<and>
   device (MatMul (Ptr 9 0, Ptr 0 0, Ptr 9 0)
           \<lparr>width = 16, height = 16, stride = 16, elements = Ptr 0 0\<rparr>
           \<lparr>width = 16, height = 16, stride = 16, elements = Ptr 1 0\<rparr>
           \<lparr>width = 16, height = 16, stride = 16, elements = Ptr 2 0\<rparr> False
           \<lparr>host = [0 \<mapsto> replicate 256 (1::int), 1 \<mapsto> replicate 256 2, 2 \<mapsto> replicate 256 0],
            device = [0 \<mapsto> [5]], next_handle = 1, available = 0, residue = (\<lambda>i. 7), trace = []\<rparr>) 0
     = None \<and>
   allocated (trace (MatMul (Ptr 9 0, Ptr 0 0, Ptr 9 0)
           \<lparr>width = 16, height = 16, stride = 16, elements = Ptr 0 0\<rparr>
           \<lparr>width = 16, height = 16, stride = 16, elements = Ptr 1 0\<rparr>
           \<lparr>width = 16, height = 16, stride = 16, elements = Ptr 2 0\<rparr> False
           \<lparr>host = [0 \<mapsto> replicate 256 (1::int), 1 \<mapsto> replicate 256 2, 2 \<mapsto> replicate 256 0],
            device = [0 \<mapsto> [5]], next_handle = 1, available = 0, residue = (\<lambda>i. 7), trace = []\<rparr>))
     = []"
proof -
  define m :: "int machine" where
    "m = \<lparr>host = [0 \<mapsto> replicate 256 (1::int), 1 \<mapsto> replicate 256 2, 2 \<mapsto> replicate 256 0],
            device = [0 \<mapsto> [5]], next_handle = 1, available = 0, residue = (\<lambda>i. 7), trace = []\<rparr>"
  define A where "A = \<lparr>width = 16, height = 16, stride = 16, elements = Ptr 0 0\<rparr>"
  define B where "B = \<lparr>width = 16, height = 16, stride = 16, elements = Ptr 1 0\<rparr>"
  define C where "C = \<lparr>width = 16, height = 16, stride = 16, elements = Ptr 2 0\<rparr>"
  define m6 where "m6 = m\<lparr> trace := trace m @ [Launch KernelPartitioned] \<rparr>"
  have dims: "width A = 16" "height A = 16" "width B = 16" "height B = 16"
    "width C = 16" "height C = 16" "elements A = Ptr 0 0" "elements B = Ptr 1 0"
    "elements C = Ptr 2 0"
    by (simp_all add: A_def B_def C_def)
  have fields: "device m = [0 \<mapsto> [5]]" "available m = 0" "trace m = []"
    "host m (Suc 0) = Some (replicate 256 2)"
    by (simp_all add: m_def)
  have fresh: "fresh_handles m" by (simp add: fresh_handles_def m_def)
  have a: "cudaMalloc p 1024 m = (cudaErrorMemoryAllocation, p, m)" for p
    by (rule cudaMalloc_fails) (simp add: fields)
  have c1: "snd (cudaMemcpy (Ptr 9 0) (Ptr 0 0) 1024 cudaMemcpyHostToDevice m) = m"
    by (rule cudaMemcpy_HostToDevice_dead) (simp add: fields)
  have c2: "snd (cudaMemcpy (Ptr 0 0) (Ptr 1 0) 1024 cudaMemcpyHostToDevice m) = m"
    by (rule cudaMemcpy_HostToDevice_short[where hbuf = "replicate 256 2" and dbuf = "[5]"])
       (simp_all add: fields sizeof_float_def)
  have l: "snd (cudaLaunch KernelPartitioned g d
              \<lparr>width = 16, height = 16, stride = 16, elements = Ptr 9 0\<rparr>
              \<lparr>width = 16, height = 16, stride = 16, elements = Ptr 0 0\<rparr>
              \<lparr>width = 16, height = 16, stride = 16, elements = Ptr 9 0\<rparr> m) = m6" for g d
    unfolding m6_def by (rule cudaLaunch_dead) (simp add: fields)
  have fields6: "device m6 = [0 \<mapsto> [5]]" "trace m6 = [Launch KernelPartitioned]"
    by (simp_all add: m6_def fields)
  have c3: "snd (cudaMemcpy (Ptr 2 0) (Ptr 9 0) 1024 cudaMemcpyDeviceToHost m6) = m6"
    by (rule cudaMemcpy_DeviceToHost_dead) (simp add: fields6)
  have f1: "snd (cudaFree (Ptr 9 0) m6) = m6"
    by (rule cudaFree_dead) (simp add: fields6)
  define m9 where "m9 = snd (cudaFree (Ptr 0 0) m6)"
  have fields9: "device m9 = Map.empty" "trace m9 = [Launch KernelPartitioned, Released 0]"
    by (simp_all add: m9_def cudaFree_def fields6)
  have f3: "snd (cudaFree (Ptr 9 0) m9) = m9"
    by (rule cudaFree_dead) (simp add: fields9)
  have "MatMul (Ptr 9 0, Ptr 0 0, Ptr 9 0) A B C False m = m9"
    unfolding MatMul_unfold Let_def dims byte_size_16 fst_conv snd_conv a
      Matrix.simps c1 c2 if_False l c3 f1 m9_def[symmetric] f3 ..
  then show ?thesis
    using fresh fields(1) fields9 unfolding m_def A_def B_def C_def by simp
qed

text \<open>
  C4, as amended. \<open>MatMul\<close> asks for one launch: of the direct kernel
  \<open>MatMulKernelGeneral\<close> when its flag is true, of the tiled kernel
  \<open>MatMulKernelPartitioned\<close> when its flag is false. The flag of the source is named
  \<open>general\<close>: it is the negation of the flag \<open>useTiled\<close> of the spec.
\<close>

theorem MatMul_selects_kernel:
  "launches (trace (MatMul junk A B C general m)) =
     launches (trace m) @ [if general then KernelGeneral else KernelPartitioned]"
  by (rule launches_MatMul)

text \<open>
  C4 as stated fails: with the flag true the kernel launched is the direct one, and
  with the flag false the tiled one.
\<close>

theorem flag_selects_direct_counterexample:
  "launches (trace (MatMul (Ptr 0 0, Ptr 0 0, Ptr 0 0)
           \<lparr>width = 16, height = 16, stride = 16, elements = Ptr 0 0\<rparr>
           \<lparr>width = 16, height = 16, stride = 16, elements = Ptr 1 0\<rparr>
           \<lparr>width = 16, height = 16, stride = 16, elements = Ptr 2 0\<rparr> True
           \<lparr>host = [0 \<mapsto> replicate 256 (1::int), 1 \<mapsto> replicate 256 2, 2 \<mapsto> replicate 256 0],
            device = Map.empty, next_handle = 0, available = 4096, residue = (\<lambda>i. 7), trace = []\<rparr>))
     = [KernelGeneral] \<and>
   launches (trace (MatMul (Ptr 0 0, Ptr 0 0, Ptr 0 0)
           \<lparr>width = 16, height = 16, stride = 16, elements = Ptr 0 0\<rparr>
           \<lparr>width = 16, height = 16, stride = 16, elements = Ptr 1 0\<rparr>
           \<lparr>width = 16, height = 16, stride = 16, elements = Ptr 2 0\<rparr> False
           \<lparr>host = [0 \<mapsto> replicate 256 (1::int), 1 \<mapsto> replicate 256 2, 2 \<mapsto> replicate 256 0],
            device = Map.empty, next_handle = 0, available = 4096, residue = (\<lambda>i. 7), trace = []\<rparr>))
     = [KernelPartitioned]"
  by (simp add: launches_MatMul)

text \<open>
  C6, as amended. Let the allocator of the accelerator be sound: no handle at or above
  the next one to be handed out is live. On every path of \<open>MatMul\<close> on which none of
  the pointers that the call leaves unassigned names a live buffer, whichever of the
  allocations fail and whatever the launch and the kernel do, every buffer that the
  call allocates is released by the call exactly once and no other buffer is released,
  and the accelerator memory and the free bytes after the call are those before it.
  When the accelerator has room for the three buffers, no pointer is left unassigned:
  the call allocates three buffers, launches one kernel and releases each of the three
  buffers exactly once, in this order. After any sequence of calls, none of which
  leaves unassigned a pointer that names a live buffer, the accelerator memory and the
  free bytes are those before the first call.
\<close>

theorem MatMul_releases:
  fixes m :: "('a::{zero,plus,times}) machine"
  assumes "fresh_handles m"
  shows "(unassigned_dead m junk A B C \<longrightarrow>
            device (MatMul junk A B C general m) = device m \<and>
            available (MatMul junk A B C general m) = available m \<and>
            (\<exists>es. trace (MatMul junk A B C general m) = trace m @ es \<and> paired es)) \<and>
         (room_for m A B C \<longrightarrow>
            unassigned_dead m junk A B C \<and>
            trace (MatMul junk A B C general m) =
              trace m @
                [Allocated (next_handle m), Allocated (Suc (next_handle m)),
                 Allocated (Suc (Suc (next_handle m))),
                 Launch (if general then KernelGeneral else KernelPartitioned),
                 Released (next_handle m), Released (Suc (next_handle m)),
                 Released (Suc (Suc (next_handle m)))]) \<and>
         ((\<forall>(junk, A, B, C, general) \<in> set calls. unassigned_dead m junk A B C) \<longrightarrow>
            device (MatMul_calls calls m) = device m \<and>
            available (MatMul_calls calls m) = available m)"
  using MatMul_released_fresh(4)[OF assms, of A B C junk general]
    room_for_unassigned[of m A B C junk]
    MatMul_settles(1,2,3)[OF assms, of junk A B C general]
    MatMul_calls_settle[OF assms, of calls]
  by blast

theorem MatMul_releases_witness:
  "fresh_handles \<lparr>host = [0 \<mapsto> replicate 256 (1::int), 1 \<mapsto> replicate 256 2, 2 \<mapsto> replicate 256 0],
            device = [0 \<mapsto> [5]], next_handle = 1, available = 1024, residue = (\<lambda>i. 7), trace = []\<rparr> \<and>
   unassigned_dead \<lparr>host = [0 \<mapsto> replicate 256 (1::int), 1 \<mapsto> replicate 256 2, 2 \<mapsto> replicate 256 0],
            device = [0 \<mapsto> [5]], next_handle = 1, available = 1024, residue = (\<lambda>i. 7), trace = []\<rparr> (Ptr 0 0, Ptr 9 0, Ptr 9 0)
     \<lparr>width = 16, height = 16, stride = 16, elements = Ptr 0 0\<rparr>
     \<lparr>width = 16, height = 16, stride = 16, elements = Ptr 1 0\<rparr>
     \<lparr>width = 16, height = 16, stride = 16, elements = Ptr 2 0\<rparr> \<and>
   device (MatMul (Ptr 0 0, Ptr 9 0, Ptr 9 0)
           \<lparr>width = 16, height = 16, stride = 16, elements = Ptr 0 0\<rparr>
           \<lparr>width = 16, height = 16, stride = 16, elements = Ptr 1 0\<rparr>
           \<lparr>width = 16, height = 16, stride = 16, elements = Ptr 2 0\<rparr> True
           \<lparr>host = [0 \<mapsto> replicate 256 (1::int), 1 \<mapsto> replicate 256 2, 2 \<mapsto> replicate 256 0],
            device = [0 \<mapsto> [5]], next_handle = 1, available = 1024, residue = (\<lambda>i. 7), trace = []\<rparr>)
     = [0 \<mapsto> [5]] \<and>
   available (MatMul (Ptr 0 0, Ptr 9 0, Ptr 9 0)
           \<lparr>width = 16, height = 16, stride = 16, elements = Ptr 0 0\<rparr>
           \<lparr>width = 16, height = 16, stride = 16, elements = Ptr 1 0\<rparr>
           \<lparr>width = 16, height = 16, stride = 16, elements = Ptr 2 0\<rparr> True
           \<lparr>host = [0 \<mapsto> replicate 256 (1::int), 1 \<mapsto> replicate 256 2, 2 \<mapsto> replicate 256 0],
            device = [0 \<mapsto> [5]], next_handle = 1, available = 1024, residue = (\<lambda>i. 7), trace = []\<rparr>)
     = 1024 \<and>
   (\<exists>es. trace (MatMul (Ptr 0 0, Ptr 9 0, Ptr 9 0)
           \<lparr>width = 16, height = 16, stride = 16, elements = Ptr 0 0\<rparr>
           \<lparr>width = 16, height = 16, stride = 16, elements = Ptr 1 0\<rparr>
           \<lparr>width = 16, height = 16, stride = 16, elements = Ptr 2 0\<rparr> True
           \<lparr>host = [0 \<mapsto> replicate 256 (1::int), 1 \<mapsto> replicate 256 2, 2 \<mapsto> replicate 256 0],
            device = [0 \<mapsto> [5]], next_handle = 1, available = 1024, residue = (\<lambda>i. 7), trace = []\<rparr>)
       = es \<and> paired es) \<and>
   room_for \<lparr>host = [0 \<mapsto> replicate 256 (1::int), 1 \<mapsto> replicate 256 2, 2 \<mapsto> replicate 256 0],
            device = [0 \<mapsto> [5]], next_handle = 1, available = 4096, residue = (\<lambda>i. 7), trace = []\<rparr>
     \<lparr>width = 16, height = 16, stride = 16, elements = Ptr 0 0\<rparr>
     \<lparr>width = 16, height = 16, stride = 16, elements = Ptr 1 0\<rparr>
     \<lparr>width = 16, height = 16, stride = 16, elements = Ptr 2 0\<rparr> \<and>
   trace (MatMul (Ptr 0 0, Ptr 0 0, Ptr 0 0)
           \<lparr>width = 16, height = 16, stride = 16, elements = Ptr 0 0\<rparr>
           \<lparr>width = 16, height = 16, stride = 16, elements = Ptr 1 0\<rparr>
           \<lparr>width = 16, height = 16, stride = 16, elements = Ptr 2 0\<rparr> False
           \<lparr>host = [0 \<mapsto> replicate 256 (1::int), 1 \<mapsto> replicate 256 2, 2 \<mapsto> replicate 256 0],
            device = [0 \<mapsto> [5]], next_handle = 1, available = 4096, residue = (\<lambda>i. 7), trace = []\<rparr>)
     = [Allocated 1, Allocated 2, Allocated 3, Launch KernelPartitioned,
        Released 1, Released 2, Released 3] \<and>
   device (MatMul_calls
            [((Ptr 0 0, Ptr 9 0, Ptr 9 0),
              \<lparr>width = 16, height = 16, stride = 16, elements = Ptr 0 0\<rparr>,
              \<lparr>width = 16, height = 16, stride = 16, elements = Ptr 1 0\<rparr>,
              \<lparr>width = 16, height = 16, stride = 16, elements = Ptr 2 0\<rparr>, True),
             ((Ptr 0 0, Ptr 9 0, Ptr 9 0),
              \<lparr>width = 16, height = 16, stride = 16, elements = Ptr 0 0\<rparr>,
              \<lparr>width = 16, height = 16, stride = 16, elements = Ptr 1 0\<rparr>,
              \<lparr>width = 16, height = 16, stride = 16, elements = Ptr 2 0\<rparr>, False)]
           \<lparr>host = [0 \<mapsto> replicate 256 (1::int), 1 \<mapsto> replicate 256 2, 2 \<mapsto> replicate 256 0],
            device = [0 \<mapsto> [5]], next_handle = 1, available = 1024, residue = (\<lambda>i. 7), trace = []\<rparr>)
     = [0 \<mapsto> [5]]"
proof -
  let ?A = "\<lparr>width = 16, height = 16, stride = 16, elements = Ptr 0 0\<rparr>"
  let ?B = "\<lparr>width = 16, height = 16, stride = 16, elements = Ptr 1 0\<rparr>"
  let ?C = "\<lparr>width = 16, height = 16, stride = 16, elements = Ptr 2 0\<rparr>"
  let ?m = "\<lparr>host = [0 \<mapsto> replicate 256 (1::int), 1 \<mapsto> replicate 256 2, 2 \<mapsto> replicate 256 0],
            device = [0 \<mapsto> [5]], next_handle = 1, available = 4096, residue = (\<lambda>i. 7), trace = []\<rparr>"
  let ?z = "\<lparr>host = [0 \<mapsto> replicate 256 (1::int), 1 \<mapsto> replicate 256 2, 2 \<mapsto> replicate 256 0],
            device = [0 \<mapsto> [5]], next_handle = 1, available = 1024, residue = (\<lambda>i. 7), trace = []\<rparr>"
  let ?j = "(Ptr 0 0, Ptr 0 0, Ptr 0 0)"
  let ?k = "(Ptr 0 0, Ptr 9 0, Ptr 9 0)"
  let ?calls = "[(?k, ?A, ?B, ?C, True), (?k, ?A, ?B, ?C, False)]"
  have f: "fresh_handles ?m" "fresh_handles ?z" by (simp_all add: fresh_handles_def)
  have r: "room_for ?m ?A ?B ?C" by (simp add: room_for_def) (simp add: byte_size_16)
  have d: "unassigned_dead ?z ?k ?A ?B ?C"
    by (simp add: unassigned_dead_def) (simp add: byte_size_16 after_alloc_def)
  have ds: "\<forall>(junk, A, B, C, general) \<in> set ?calls. unassigned_dead ?z junk A B C"
    using d by simp
  from MatMul_releases[OF f(2), of ?k ?A ?B ?C True] d
  have "device (MatMul ?k ?A ?B ?C True ?z) = device ?z"
    "available (MatMul ?k ?A ?B ?C True ?z) = available ?z"
    "\<exists>es. trace (MatMul ?k ?A ?B ?C True ?z) = trace ?z @ es \<and> paired es"
    by blast+
  then have p1: "device (MatMul ?k ?A ?B ?C True ?z) = [0 \<mapsto> [5]]"
    "available (MatMul ?k ?A ?B ?C True ?z) = 1024"
    "\<exists>es. trace (MatMul ?k ?A ?B ?C True ?z) = es \<and> paired es"
    by simp_all
  have "trace (MatMul ?j ?A ?B ?C False ?m) =
          trace ?m @ [Allocated (next_handle ?m), Allocated (Suc (next_handle ?m)),
                 Allocated (Suc (Suc (next_handle ?m))),
                 Launch (if False then KernelGeneral else KernelPartitioned),
                 Released (next_handle ?m), Released (Suc (next_handle ?m)),
                 Released (Suc (Suc (next_handle ?m)))]"
    using MatMul_releases[OF f(1), of ?j ?A ?B ?C False] r by blast
  then have t: "trace (MatMul ?j ?A ?B ?C False ?m) =
     [Allocated 1, Allocated 2, Allocated 3, Launch KernelPartitioned, Released 1, Released 2, Released 3]"
    by (simp add: numeral_2_eq_2 numeral_3_eq_3)
  have "device (MatMul_calls ?calls ?z) = device ?z"
    using MatMul_releases[OF f(2), of _ _ _ _ _ ?calls] ds by blast
  then have dc: "device (MatMul_calls ?calls ?z) = [0 \<mapsto> [5]]" by simp
  show ?thesis using f(2) d p1 r t dc by blast
qed

text \<open>
  C6 as stated fails on the path of a failed allocation. The accelerator holds one
  buffer of another owner under handle 0 and has no free bytes; the uninitialised
  pointer of \<open>d_A\<close> happens to be that handle. The three allocations fail, the copies
  and the kernel fault without a write, and \<open>cudaFree(d_A.elements)\<close> releases the
  buffer of the other owner: a buffer the call never allocated is released, and the
  accelerator memory after the call is not the one before it.
\<close>

theorem stale_pointer_released_counterexample:
  "fresh_handles \<lparr>host = [0 \<mapsto> replicate 256 (1::int), 1 \<mapsto> replicate 256 2, 2 \<mapsto> replicate 256 0],
            device = [0 \<mapsto> [5]], next_handle = 1, available = 0, residue = (\<lambda>i. 7), trace = []\<rparr> \<and>
   device \<lparr>host = [0 \<mapsto> replicate 256 (1::int), 1 \<mapsto> replicate 256 2, 2 \<mapsto> replicate 256 0],
            device = [0 \<mapsto> [5]], next_handle = 1, available = 0, residue = (\<lambda>i. 7), trace = []\<rparr> 0
     = Some [5] \<and>
   device (MatMul (Ptr 0 0, Ptr 9 0, Ptr 9 0)
           \<lparr>width = 16, height = 16, stride = 16, elements = Ptr 0 0\<rparr>
           \<lparr>width = 16, height = 16, stride = 16, elements = Ptr 1 0\<rparr>
           \<lparr>width = 16, height = 16, stride = 16, elements = Ptr 2 0\<rparr> True
           \<lparr>host = [0 \<mapsto> replicate 256 (1::int), 1 \<mapsto> replicate 256 2, 2 \<mapsto> replicate 256 0],
            device = [0 \<mapsto> [5]], next_handle = 1, available = 0, residue = (\<lambda>i. 7), trace = []\<rparr>) 0
     = None \<and>
   trace (MatMul (Ptr 0 0, Ptr 9 0, Ptr 9 0)
           \<lparr>width = 16, height = 16, stride = 16, elements = Ptr 0 0\<rparr>
           \<lparr>width = 16, height = 16, stride = 16, elements = Ptr 1 0\<rparr>
           \<lparr>width = 16, height = 16, stride = 16, elements = Ptr 2 0\<rparr> True
           \<lparr>host = [0 \<mapsto> replicate 256 (1::int), 1 \<mapsto> replicate 256 2, 2 \<mapsto> replicate 256 0],
            device = [0 \<mapsto> [5]], next_handle = 1, available = 0, residue = (\<lambda>i. 7), trace = []\<rparr>)
     = [Launch KernelGeneral, Released 0]"
proof -
  define m :: "int machine" where
    "m = \<lparr>host = [0 \<mapsto> replicate 256 (1::int), 1 \<mapsto> replicate 256 2, 2 \<mapsto> replicate 256 0],
            device = [0 \<mapsto> [5]], next_handle = 1, available = 0, residue = (\<lambda>i. 7), trace = []\<rparr>"
  define A where "A = \<lparr>width = 16, height = 16, stride = 16, elements = Ptr 0 0\<rparr>"
  define B where "B = \<lparr>width = 16, height = 16, stride = 16, elements = Ptr 1 0\<rparr>"
  define C where "C = \<lparr>width = 16, height = 16, stride = 16, elements = Ptr 2 0\<rparr>"
  define m6 where "m6 = m\<lparr> trace := trace m @ [Launch KernelGeneral] \<rparr>"
  have dims: "width A = 16" "height A = 16" "width B = 16" "height B = 16"
    "width C = 16" "height C = 16" "elements A = Ptr 0 0" "elements B = Ptr 1 0"
    "elements C = Ptr 2 0"
    by (simp_all add: A_def B_def C_def)
  have fields: "device m = [0 \<mapsto> [5]]" "available m = 0" "trace m = []"
    "host m 0 = Some (replicate 256 1)"
    by (simp_all add: m_def)
  have fresh: "fresh_handles m" by (simp add: fresh_handles_def m_def)
  have a: "cudaMalloc p 1024 m = (cudaErrorMemoryAllocation, p, m)" for p
    by (rule cudaMalloc_fails) (simp add: fields)
  have c1: "snd (cudaMemcpy (Ptr 0 0) (Ptr 0 0) 1024 cudaMemcpyHostToDevice m) = m"
    by (rule cudaMemcpy_HostToDevice_short[where hbuf = "replicate 256 1" and dbuf = "[5]"])
       (simp_all add: fields sizeof_float_def)
  have c2: "snd (cudaMemcpy (Ptr 9 0) (Ptr 1 0) 1024 cudaMemcpyHostToDevice m) = m"
    by (rule cudaMemcpy_HostToDevice_dead) (simp add: fields)
  have l: "snd (cudaLaunch KernelGeneral g d
              \<lparr>width = 16, height = 16, stride = 16, elements = Ptr 0 0\<rparr>
              \<lparr>width = 16, height = 16, stride = 16, elements = Ptr 9 0\<rparr>
              \<lparr>width = 16, height = 16, stride = 16, elements = Ptr 9 0\<rparr> m) = m6" for g d
    unfolding m6_def by (rule cudaLaunch_dead) (simp add: fields)
  have fields6: "device m6 = [0 \<mapsto> [5]]" "trace m6 = [Launch KernelGeneral]"
    by (simp_all add: m6_def fields)
  have c3: "snd (cudaMemcpy (Ptr 2 0) (Ptr 9 0) 1024 cudaMemcpyDeviceToHost m6) = m6"
    by (rule cudaMemcpy_DeviceToHost_dead) (simp add: fields6)
  define m8 where "m8 = snd (cudaFree (Ptr 0 0) m6)"
  have fields8: "device m8 = Map.empty" "trace m8 = [Launch KernelGeneral, Released 0]"
    by (simp_all add: m8_def cudaFree_def fields6)
  have f2: "snd (cudaFree (Ptr 9 0) m8) = m8"
    by (rule cudaFree_dead) (simp add: fields8)
  have "MatMul (Ptr 0 0, Ptr 9 0, Ptr 9 0) A B C True m = m8"
    unfolding MatMul_unfold Let_def dims byte_size_16 fst_conv snd_conv a
      Matrix.simps c1 c2 if_True l c3 m8_def[symmetric] f2 ..
  then show ?thesis
    using fresh fields(1) fields8 unfolding m_def A_def B_def C_def by simp
qed

end
